theory Spec2Isabelle
  imports Main "HOL-Library.Word"
begin

section \<open>Bytes and SHA-256\<close>

text \<open>
  Go's \<^verbatim>\<open>byte\<close> is an eight-bit value, and so is \<^typ>\<open>char\<close>; a Go \<^verbatim>\<open>string\<close>, a
  \<^verbatim>\<open>[]byte\<close> and the array \<^verbatim>\<open>[32]byte\<close> are all modelled as \<^typ>\<open>string\<close>, a list
  of bytes.

  The ledger hashes with \<^verbatim>\<open>crypto/sha256.Sum256\<close>.  The function is modelled here
  in full, following FIPS 180-4, so that the hashes of concrete blocks can be computed.  A
  32-bit word is the list of its bits, least significant bit first; addition modulo \<open>2^32\<close>
  is a ripple-carry adder that drops the last carry.
\<close>

type_synonym word32 = "bool list"

text \<open>Bitwise exclusive or, choice and majority, bit by bit.\<close>

fun xor32 :: "word32 \<Rightarrow> word32 \<Rightarrow> word32" where
  "xor32 (False # xs) (False # ys) = False # xor32 xs ys"
| "xor32 (False # xs) (True # ys) = True # xor32 xs ys"
| "xor32 (True # xs) (False # ys) = True # xor32 xs ys"
| "xor32 (True # xs) (True # ys) = False # xor32 xs ys"
| "xor32 _ _ = []"

fun ch :: "word32 \<Rightarrow> word32 \<Rightarrow> word32 \<Rightarrow> word32" where
  "ch (False # xs) (False # ys) (False # zs) = False # ch xs ys zs"
| "ch (False # xs) (False # ys) (True # zs) = True # ch xs ys zs"
| "ch (False # xs) (True # ys) (False # zs) = False # ch xs ys zs"
| "ch (False # xs) (True # ys) (True # zs) = True # ch xs ys zs"
| "ch (True # xs) (False # ys) (False # zs) = False # ch xs ys zs"
| "ch (True # xs) (False # ys) (True # zs) = False # ch xs ys zs"
| "ch (True # xs) (True # ys) (False # zs) = True # ch xs ys zs"
| "ch (True # xs) (True # ys) (True # zs) = True # ch xs ys zs"
| "ch _ _ _ = []"

fun maj :: "word32 \<Rightarrow> word32 \<Rightarrow> word32 \<Rightarrow> word32" where
  "maj (False # xs) (False # ys) (False # zs) = False # maj xs ys zs"
| "maj (False # xs) (False # ys) (True # zs) = False # maj xs ys zs"
| "maj (False # xs) (True # ys) (False # zs) = False # maj xs ys zs"
| "maj (False # xs) (True # ys) (True # zs) = True # maj xs ys zs"
| "maj (True # xs) (False # ys) (False # zs) = False # maj xs ys zs"
| "maj (True # xs) (False # ys) (True # zs) = True # maj xs ys zs"
| "maj (True # xs) (True # ys) (False # zs) = True # maj xs ys zs"
| "maj (True # xs) (True # ys) (True # zs) = True # maj xs ys zs"
| "maj _ _ _ = []"

text \<open>Addition modulo \<open>2^32\<close>: \<open>addc c x y\<close> adds with incoming carry \<open>c\<close>.\<close>

fun addc :: "bool \<Rightarrow> word32 \<Rightarrow> word32 \<Rightarrow> word32" where
  "addc False (False # xs) (False # ys) = False # addc False xs ys"
| "addc False (False # xs) (True # ys) = True # addc False xs ys"
| "addc False (True # xs) (False # ys) = True # addc False xs ys"
| "addc False (True # xs) (True # ys) = False # addc True xs ys"
| "addc True (False # xs) (False # ys) = True # addc False xs ys"
| "addc True (False # xs) (True # ys) = False # addc True xs ys"
| "addc True (True # xs) (False # ys) = False # addc True xs ys"
| "addc True (True # xs) (True # ys) = True # addc True xs ys"
| "addc c _ _ = []"

definition add32 :: "word32 \<Rightarrow> word32 \<Rightarrow> word32" where
  "add32 x y = addc False x y"

definition rotr :: "nat \<Rightarrow> word32 \<Rightarrow> word32" where
  "rotr n x = drop n x @ take n x"

definition shr :: "nat \<Rightarrow> word32 \<Rightarrow> word32" where
  "shr n x = drop n x @ replicate n False"

definition ssig0 :: "word32 \<Rightarrow> word32" where "ssig0 x = xor32 (xor32 (rotr 7 x) (rotr 18 x)) (shr 3 x)"
definition ssig1 :: "word32 \<Rightarrow> word32" where "ssig1 x = xor32 (xor32 (rotr 17 x) (rotr 19 x)) (shr 10 x)"
definition bsig0 :: "word32 \<Rightarrow> word32" where "bsig0 x = xor32 (xor32 (rotr 2 x) (rotr 13 x)) (rotr 22 x)"
definition bsig1 :: "word32 \<Rightarrow> word32" where "bsig1 x = xor32 (xor32 (rotr 6 x) (rotr 11 x)) (rotr 25 x)"

definition hextable :: "(char \<times> bool list) list" where
  "hextable = [
    (CHR ''0'', [False, False, False, False]),
    (CHR ''1'', [True, False, False, False]),
    (CHR ''2'', [False, True, False, False]),
    (CHR ''3'', [True, True, False, False]),
    (CHR ''4'', [False, False, True, False]),
    (CHR ''5'', [True, False, True, False]),
    (CHR ''6'', [False, True, True, False]),
    (CHR ''7'', [True, True, True, False]),
    (CHR ''8'', [False, False, False, True]),
    (CHR ''9'', [True, False, False, True]),
    (CHR ''a'', [False, True, False, True]),
    (CHR ''b'', [True, True, False, True]),
    (CHR ''c'', [False, False, True, True]),
    (CHR ''d'', [True, False, True, True]),
    (CHR ''e'', [False, True, True, True]),
    (CHR ''f'', [True, True, True, True])]"

definition hexbits :: "char \<Rightarrow> bool list" where
  "hexbits c = (case map_of hextable c of Some bs \<Rightarrow> bs | None \<Rightarrow> [])"

fun hexword :: "string \<Rightarrow> word32" where
  "hexword [] = []"
| "hexword (c # cs) = hexword cs @ hexbits c"

definition K256 :: "word32 list" where
  "K256 = map hexword
    [''428a2f98'', ''71374491'', ''b5c0fbcf'', ''e9b5dba5'', ''3956c25b'', ''59f111f1'', ''923f82a4'', ''ab1c5ed5'',
     ''d807aa98'', ''12835b01'', ''243185be'', ''550c7dc3'', ''72be5d74'', ''80deb1fe'', ''9bdc06a7'', ''c19bf174'',
     ''e49b69c1'', ''efbe4786'', ''0fc19dc6'', ''240ca1cc'', ''2de92c6f'', ''4a7484aa'', ''5cb0a9dc'', ''76f988da'',
     ''983e5152'', ''a831c66d'', ''b00327c8'', ''bf597fc7'', ''c6e00bf3'', ''d5a79147'', ''06ca6351'', ''14292967'',
     ''27b70a85'', ''2e1b2138'', ''4d2c6dfc'', ''53380d13'', ''650a7354'', ''766a0abb'', ''81c2c92e'', ''92722c85'',
     ''a2bfe8a1'', ''a81a664b'', ''c24b8b70'', ''c76c51a3'', ''d192e819'', ''d6990624'', ''f40e3585'', ''106aa070'',
     ''19a4c116'', ''1e376c08'', ''2748774c'', ''34b0bcb5'', ''391c0cb3'', ''4ed8aa4a'', ''5b9cca4f'', ''682e6ff3'',
     ''748f82ee'', ''78a5636f'', ''84c87814'', ''8cc70208'', ''90befffa'', ''a4506ceb'', ''bef9a3f7'', ''c67178f2'']"

datatype sha_state = St word32 word32 word32 word32 word32 word32 word32 word32

definition H0 :: sha_state where
  "H0 = St (hexword ''6a09e667'') (hexword ''bb67ae85'') (hexword ''3c6ef372'') (hexword ''a54ff53a'')
           (hexword ''510e527f'') (hexword ''9b05688c'') (hexword ''1f83d9ab'') (hexword ''5be0cd19'')"

fun step2 :: "word32 \<Rightarrow> word32 \<Rightarrow> sha_state \<Rightarrow> sha_state" where
  "step2 t1 t2 (St a b c d e f g h) = St (add32 t1 t2) a b c (add32 d t1) e f g"

fun step :: "word32 \<Rightarrow> word32 \<Rightarrow> sha_state \<Rightarrow> sha_state" where
  "step k w (St a b c d e f g h) =
     step2 (add32 (add32 (add32 (add32 h (bsig1 e)) (ch e f g)) k) w) (add32 (bsig0 a) (maj a b c))
       (St a b c d e f g h)"

fun slide :: "word32 list \<Rightarrow> word32 list" where
  "slide (w0 # w1 # w2 # w3 # w4 # w5 # w6 # w7 # w8 # w9 # w10 # w11 # w12 # w13 # w14 # ws) =
     w1 # w2 # w3 # w4 # w5 # w6 # w7 # w8 # w9 # w10 # w11 # w12 # w13 # w14 # ws @
     [add32 (add32 (add32 (ssig1 w14) w9) (ssig0 w1)) w0]"
| "slide ws = ws"

fun rounds :: "word32 list \<Rightarrow> word32 list \<Rightarrow> sha_state \<Rightarrow> sha_state" where
  "rounds [] win s = s"
| "rounds (k # ks) win s = rounds ks (slide win) (step k (hd win) s)"

fun add_state :: "sha_state \<Rightarrow> sha_state \<Rightarrow> sha_state" where
  "add_state (St a b c d e f g h) (St a' b' c' d' e' f' g' h') =
     St (add32 a a') (add32 b b') (add32 c c') (add32 d d') (add32 e e') (add32 f f') (add32 g g') (add32 h h')"

definition compress :: "word32 list \<Rightarrow> sha_state \<Rightarrow> word32 list \<Rightarrow> sha_state" where
  "compress ks s w16 = add_state s (rounds ks w16 s)"

fun charbits :: "char \<Rightarrow> bool list" where
  "charbits (Char b0 b1 b2 b3 b4 b5 b6 b7) = [b0, b1, b2, b3, b4, b5, b6, b7]"

fun be32 :: "string \<Rightarrow> word32 list" where
  "be32 (a # b # c # d # r) = (charbits d @ charbits c @ charbits b @ charbits a) # be32 r"
| "be32 _ = []"

fun blocks :: "word32 list \<Rightarrow> word32 list \<Rightarrow> sha_state \<Rightarrow> sha_state" where
  "blocks ks [] s = s"
| "blocks ks (w # ws) s = blocks ks (drop 16 (w # ws)) (compress ks s (take 16 (w # ws)))"

fun inc :: "bool list \<Rightarrow> bool list" where
  "inc [] = []"
| "inc (False # bs) = True # bs"
| "inc (True # bs) = False # inc bs"

fun count_bytes :: "string \<Rightarrow> bool list \<Rightarrow> bool list" where
  "count_bytes [] c = c"
| "count_bytes (x # xs) c = count_bytes xs (inc c)"

fun bytes_of_bits :: "bool list \<Rightarrow> string" where
  "bytes_of_bits (b0 # b1 # b2 # b3 # b4 # b5 # b6 # b7 # r) = Char b0 b1 b2 b3 b4 b5 b6 b7 # bytes_of_bits r"
| "bytes_of_bits _ = []"

definition len64 :: "string \<Rightarrow> string" where
  "len64 m = rev (bytes_of_bits (False # False # False # count_bytes m (replicate 61 False)))"

definition pad :: "string \<Rightarrow> string" where
  "pad m = m @ CHR 0x80 # replicate ((119 - length m mod 64) mod 64) (CHR 0x00) @ len64 m"

fun digest :: "sha_state \<Rightarrow> string" where
  "digest (St a b c d e f g h) = rev (bytes_of_bits (h @ g @ f @ e @ d @ c @ b @ a))"

definition sha256 :: "string \<Rightarrow> string" where
  "sha256 m = digest (blocks K256 (be32 (pad m)) H0)"

text \<open>A state of eight words of 32 bits each.\<close>

fun wf_state :: "sha_state \<Rightarrow> bool"
  where "wf_state (St a b c d e f g h) =
    (length a = 32 \<and> length b = 32 \<and> length c = 32 \<and> length d = 32 \<and>
     length e = 32 \<and> length f = 32 \<and> length g = 32 \<and> length h = 32)"

section \<open>Formatting\<close>

text \<open>
  \<^verbatim>\<open>fmt.Sprintf("%x", h)\<close> on a byte array: two lower-case hexadecimal digits per byte, the
  high nibble first.
\<close>

definition hexdigit :: "bool list \<Rightarrow> char"
  where "hexdigit bs = (case map_of (map (\<lambda>(c, b). (b, c)) hextable) bs of Some c \<Rightarrow> c | None \<Rightarrow> CHR ''?'')"

fun hexbyte :: "char \<Rightarrow> string"
  where "hexbyte (Char b0 b1 b2 b3 b4 b5 b6 b7) = [hexdigit [b4, b5, b6, b7], hexdigit [b0, b1, b2, b3]]"

definition hex :: "string \<Rightarrow> string"
  where "hex bs = concat (map hexbyte bs)"

text \<open>Decimal digits of an integer, as \<^verbatim>\<open>encoding/json\<close> writes an \<^verbatim>\<open>int64\<close> or an \<^verbatim>\<open>int\<close>.\<close>

definition digit_char :: "int \<Rightarrow> char"
  where "digit_char d = ''0123456789'' ! nat d"

function digits10 :: "int \<Rightarrow> string"
  where "digits10 n = (if n < 10 then [digit_char n] else digits10 (n div 10) @ [digit_char (n mod 10)])"
  by pat_completeness auto
termination
  by (relation "measure nat") auto

declare digits10.simps [simp del]

definition FormatInt :: "int \<Rightarrow> string"
  where "FormatInt i = (if i < 0 then CHR ''-'' # digits10 (- i) else digits10 i)"

section \<open>Data model\<close>

text \<open>
  A run-time panic of the Go program is a value of type \<open>panic\<close>; a function that can panic
  returns \<open>panic + 'a\<close>.
\<close>

datatype panic = IndexOutOfRange | SliceBoundsOutOfRange | NilPointerDereference | NegativeRepeatCount

text \<open>
  \<^verbatim>\<open>float32\<close> values are carried as their IEEE-754 bit pattern; the ledger core never
  computes with the value of a transaction in the operations modelled here.
\<close>

type_synonym float32 = "32 word"

record Transaction =
  senderBlockchainAddress :: string
  recipientBlockchainAddress :: string
  amount :: float32

text \<open>
  The field \<^verbatim>\<open>value\<close> of the Go struct is called \<open>amount\<close> here.  A pointer is an option
  (\<open>None\<close> is \<^verbatim>\<open>nil\<close>); a slice \<^verbatim>\<open>[]*Transaction\<close> is an optional list of pointers, where
  \<open>None\<close> is the \<^verbatim>\<open>nil\<close> slice, which \<^verbatim>\<open>encoding/json\<close> writes differently from an empty
  one.  Go's \<^verbatim>\<open>int\<close> is taken as 64 bits wide.
\<close>

type_synonym tx_slice = "Transaction option list option"

record Block =
  timestamp :: "64 word"
  nonce :: "64 word"
  previousHash :: string
  transactions :: tx_slice

record Blockchain =
  transactionPool :: tx_slice
  chain :: "Block option list"
  blockchainAddress :: string
  port :: "16 word"
  neighbors :: "string list"

definition MiningDifficulty :: int
  where "MiningDifficulty = 3"

definition MiningSender :: string
  where "MiningSender = ''THE BLOCKCHAIN''"

definition MiningReward :: float32
  where "MiningReward = 0x3F800000"

definition NewTransaction :: "string \<Rightarrow> string \<Rightarrow> float32 \<Rightarrow> Transaction"
  where "NewTransaction sender recipient v =
    \<lparr>senderBlockchainAddress = sender, recipientBlockchainAddress = recipient, amount = v\<rparr>"

definition slice_len :: "'a list option \<Rightarrow> nat"
  where "slice_len s = (case s of None \<Rightarrow> 0 | Some xs \<Rightarrow> length xs)"

definition slice_append :: "'a list option \<Rightarrow> 'a \<Rightarrow> 'a list option"
  where "slice_append s x = (case s of None \<Rightarrow> Some [x] | Some xs \<Rightarrow> Some (xs @ [x]))"

section \<open>Canonical encoding and hashing\<close>

text \<open>
  JSON texts are kept as trees until they are written out.  Numbers are the integer
  literals, the only ones a block contains.  \<open>render\<close> is the compact text that
  \<^verbatim>\<open>json.Marshal\<close> produces; strings are written between quotes as they are, which is
  exact for the strings rendered here (field names and hexadecimal digits), where nothing
  needs escaping.
\<close>

datatype json =
    JNull
  | JBool bool
  | JNumber int
  | JString string
  | JArray "json list"
  | JObject "(string \<times> json) list"

fun comma_join :: "string list \<Rightarrow> string"
  where
    "comma_join [] = []"
  | "comma_join [x] = x"
  | "comma_join (x # y # r) = x @ '','' @ comma_join (y # r)"

fun render :: "json \<Rightarrow> string"
  where
    \<open>render JNull = ''null''\<close>
  | \<open>render (JBool b) = (if b then ''true'' else ''false'')\<close>
  | \<open>render (JNumber i) = FormatInt i\<close>
  | \<open>render (JString s) = ''"'' @ s @ ''"''\<close>
  | \<open>render (JArray vs) = ''['' @ comma_join (map render vs) @ '']''\<close>
  | \<open>render (JObject kvs) =
      ''{'' @ comma_join (map (\<lambda>kv. ''"'' @ fst kv @ ''":'' @ render (snd kv)) kvs) @ ''}''\<close>

text \<open>
  \<^verbatim>\<open>json.Marshal\<close> on a \<^verbatim>\<open>*Transaction\<close>.  The Go type declares a method \<^verbatim>\<open>MarshaJSON\<close>,
  which is not the method \<^verbatim>\<open>MarshalJSON\<close> of the interface \<^verbatim>\<open>json.Marshaler\<close>, so the
  encoder never calls it and falls back to the exported fields of the struct.  All three
  fields are unexported: a transaction is written as the empty object, a \<^verbatim>\<open>nil\<close> pointer as
  \<^verbatim>\<open>null\<close>.
\<close>

definition json_of_Transaction :: "Transaction option \<Rightarrow> json"
  where "json_of_Transaction t = (case t of None \<Rightarrow> JNull | Some _ \<Rightarrow> JObject [])"

definition json_Marshal_Transaction :: "Transaction option \<Rightarrow> string"
  where "json_Marshal_Transaction t = render (json_of_Transaction t)"

text \<open>A \<^verbatim>\<open>nil\<close> slice is written as \<^verbatim>\<open>null\<close>, any other as an array.\<close>

definition json_of_transactions :: "tx_slice \<Rightarrow> json"
  where "json_of_transactions ts =
    (case ts of None \<Rightarrow> JNull | Some xs \<Rightarrow> JArray (map json_of_Transaction xs))"

text \<open>
  \<^verbatim>\<open>Block.MarshalJSON\<close>: the four fields in the order of the anonymous struct, under the
  names of its tags; the previous hash as the string that \<^verbatim>\<open>fmt.Sprintf("%x", ...)\<close> gives.
\<close>

definition Block_fields :: "Block \<Rightarrow> (string \<times> json) list"
  where "Block_fields b =
    [(''timestamp'', JNumber (sint (timestamp b))),
     (''nonce'', JNumber (sint (nonce b))),
     (''previous-hash'', JString (hex (previousHash b))),
     (''transactions'', json_of_transactions (transactions b))]"

definition Block_MarshalJSON :: "Block \<Rightarrow> string"
  where "Block_MarshalJSON b = render (JObject (Block_fields b))"

text \<open>
  \<^verbatim>\<open>Block.Hash\<close>.  The receiver is a pointer; on a \<^verbatim>\<open>nil\<close> receiver \<^verbatim>\<open>json.Marshal\<close> writes
  \<^verbatim>\<open>null\<close> without calling \<^verbatim>\<open>MarshalJSON\<close>.
\<close>

definition Hash :: "Block option \<Rightarrow> string"
  where "Hash b = sha256 (case b of None \<Rightarrow> render JNull | Some blk \<Rightarrow> Block_MarshalJSON blk)"

definition NewBlock :: "64 word \<Rightarrow> 64 word \<Rightarrow> string \<Rightarrow> tx_slice \<Rightarrow> Block"
  where "NewBlock now n ph txs = \<lparr>timestamp = now, nonce = n, previousHash = ph, transactions = txs\<rparr>"

section \<open>Signatures\<close>

text \<open>
  Modelled from the spec: the type \<^verbatim>\<open>utils.Signature\<close> is not among the sources; the
  specification describes it as a pair \<open>(r, s)\<close> of big integers.  A public key
  (\<^verbatim>\<open>ecdsa.PublicKey\<close>) is the pair of its coordinates.  The library function
  \<^verbatim>\<open>ecdsa.Verify\<close> is a parameter of every operation that reaches it: it takes the key, the
  digest and the two integers.
\<close>

record Signature =
  R :: int
  S :: int

record PublicKey =
  X :: int
  Y :: int

type_synonym verifier = "PublicKey \<Rightarrow> string \<Rightarrow> int \<Rightarrow> int \<Rightarrow> bool"

text \<open>
  The digest that \<^verbatim>\<open>VerityTransactionSignature\<close> checks the signature against:
  \<^verbatim>\<open>sha256.Sum256\<close> of \<^verbatim>\<open>json.Marshal(t)\<close>.
\<close>

definition verification_digest :: "Transaction \<Rightarrow> string"
  where "verification_digest t = sha256 (json_Marshal_Transaction (Some t))"

text \<open>
  \<^verbatim>\<open>s.R\<close> dereferences the signature; a \<^verbatim>\<open>nil\<close> key makes \<^verbatim>\<open>ecdsa.Verify\<close> dereference it.
\<close>

definition VerityTransactionSignature ::
    "verifier \<Rightarrow> PublicKey option \<Rightarrow> Signature option \<Rightarrow> Transaction \<Rightarrow> panic + bool"
  where "VerityTransactionSignature ecdsa_Verify senderPublicKey s t =
    (let h = verification_digest t in
     case s of
       None \<Rightarrow> Inl NilPointerDereference
     | Some sg \<Rightarrow>
        (case senderPublicKey of
           None \<Rightarrow> Inl NilPointerDereference
         | Some pk \<Rightarrow> Inr (ecdsa_Verify pk h (R sg) (S sg))))"

section \<open>The transaction pool\<close>

definition AddTransaction ::
    "verifier \<Rightarrow> Blockchain \<Rightarrow> string \<Rightarrow> string \<Rightarrow> float32 \<Rightarrow> PublicKey option \<Rightarrow> Signature option
      \<Rightarrow> panic + (bool \<times> Blockchain)"
  where "AddTransaction ecdsa_Verify bc sender recipient v senderPublicKey s =
    (let t = NewTransaction sender recipient v in
     if sender = MiningSender
     then Inr (True, bc\<lparr>transactionPool := slice_append (transactionPool bc) (Some t)\<rparr>)
     else (case VerityTransactionSignature ecdsa_Verify senderPublicKey s t of
             Inl e \<Rightarrow> Inl e
           | Inr ok \<Rightarrow>
               if ok
               then Inr (True, bc\<lparr>transactionPool := slice_append (transactionPool bc) (Some t)\<rparr>)
               else Inr (False, bc)))"

text \<open>\<^verbatim>\<open>bc.transactionPool[:0]\<close>: a \<^verbatim>\<open>nil\<close> slice stays \<^verbatim>\<open>nil\<close>.\<close>

definition ClearTransactionPool :: "Blockchain \<Rightarrow> Blockchain"
  where "ClearTransactionPool bc = bc\<lparr>transactionPool := map_option (\<lambda>_. []) (transactionPool bc)\<rparr>"

text \<open>
  \<^verbatim>\<open>CopyTransactionPool\<close> reads the fields of every pooled transaction, which panics on a
  \<^verbatim>\<open>nil\<close> element; the copy is made with \<^verbatim>\<open>make\<close> and is never \<^verbatim>\<open>nil\<close>.
\<close>

fun copy_transactions :: "Transaction option list \<Rightarrow> panic + Transaction option list"
  where
    "copy_transactions [] = Inr []"
  | "copy_transactions (None # r) = Inl NilPointerDereference"
  | "copy_transactions (Some t # r) =
      (case copy_transactions r of
         Inl e \<Rightarrow> Inl e
       | Inr ts \<Rightarrow>
           Inr (Some (NewTransaction (senderBlockchainAddress t) (recipientBlockchainAddress t) (amount t)) # ts))"

definition CopyTransactionPool :: "Blockchain \<Rightarrow> panic + tx_slice"
  where "CopyTransactionPool bc =
    (case copy_transactions (case transactionPool bc of None \<Rightarrow> [] | Some xs \<Rightarrow> xs) of
       Inl e \<Rightarrow> Inl e
     | Inr ts \<Rightarrow> Inr (Some ts))"

section \<open>The chain\<close>

text \<open>
  \<^verbatim>\<open>CreateBlock\<close>: the new block takes the pool itself, the chain grows by the block, the pool
  becomes a fresh empty slice.  \<open>now\<close> is what \<^verbatim>\<open>time.Now().UnixNano()\<close> returns inside
  \<^verbatim>\<open>NewBlock\<close>.  The \<^verbatim>\<open>DELETE\<close> requests to the neighbours change nothing in this node: their
  results are only logged.
\<close>

definition CreateBlock :: "Blockchain \<Rightarrow> 64 word \<Rightarrow> 64 word \<Rightarrow> string \<Rightarrow> Block \<times> Blockchain"
  where "CreateBlock bc now n ph =
    (let b = NewBlock now n ph (transactionPool bc) in
     (b, bc\<lparr>chain := chain bc @ [Some b], transactionPool := Some []\<rparr>))"

definition zero_Block :: Block
  where "zero_Block =
    \<lparr>timestamp = 0, nonce = 0, previousHash = replicate 32 (CHR 0x00), transactions = None\<rparr>"

definition zero_Blockchain :: Blockchain
  where "zero_Blockchain =
    \<lparr>transactionPool = None, chain = [], blockchainAddress = [], port = 0, neighbors = []\<rparr>"

definition NewBlockchain :: "string \<Rightarrow> 16 word \<Rightarrow> 64 word \<Rightarrow> Blockchain"
  where "NewBlockchain addr p now =
    (snd (CreateBlock (zero_Blockchain\<lparr>blockchainAddress := addr\<rparr>) now 0 (Hash (Some zero_Block))))
      \<lparr>port := p\<rparr>"

text \<open>\<^verbatim>\<open>bc.chain[len(bc.chain)-1]\<close> panics on an empty chain.\<close>

definition LastBlock :: "Blockchain \<Rightarrow> panic + Block option"
  where "LastBlock bc = (if chain bc = [] then Inl IndexOutOfRange else Inr (last (chain bc)))"

section \<open>Proof of work\<close>

text \<open>
  \<^verbatim>\<open>strings.Repeat\<close> panics on a negative count, and \<^verbatim>\<open>guessHashStr[:difficulty]\<close> panics when
  the difficulty exceeds the 64 characters of the hash.
\<close>

definition ValidProof :: "64 word \<Rightarrow> string \<Rightarrow> tx_slice \<Rightarrow> int \<Rightarrow> panic + bool"
  where "ValidProof n ph txs difficulty =
    (if difficulty < 0 then Inl NegativeRepeatCount
     else
       (let zeros = replicate (nat difficulty) (CHR ''0'');
            guessBlock = \<lparr>timestamp = 0, nonce = n, previousHash = ph, transactions = txs\<rparr>;
            guessHashStr = hex (Hash (Some guessBlock))
        in if length guessHashStr < nat difficulty then Inl SliceBoundsOutOfRange
           else Inr (take (nat difficulty) guessHashStr = zeros)))"

text \<open>
  The search loop of \<^verbatim>\<open>ProofOfWork\<close> has no bound: \<open>None\<close> is the run that never ends.
  The nonce is a machine integer, so \<open>n + 1\<close> wraps around.
\<close>

partial_function (option) ProofOfWork_loop :: "string \<Rightarrow> tx_slice \<Rightarrow> 64 word \<Rightarrow> (panic + 64 word) option"
  where "ProofOfWork_loop ph txs n =
    (case ValidProof n ph txs MiningDifficulty of
       Inl e \<Rightarrow> Some (Inl e)
     | Inr ok \<Rightarrow> if ok then Some (Inr n) else ProofOfWork_loop ph txs (n + 1))"

definition ProofOfWork :: "Blockchain \<Rightarrow> (panic + 64 word) option"
  where "ProofOfWork bc =
    (case CopyTransactionPool bc of
       Inl e \<Rightarrow> Some (Inl e)
     | Inr txs \<Rightarrow>
        (case LastBlock bc of
           Inl e \<Rightarrow> Some (Inl e)
         | Inr lb \<Rightarrow> ProofOfWork_loop (Hash lb) txs 0))"

section \<open>Mining\<close>

text \<open>
  \<^verbatim>\<open>Mining\<close> holds the mutex from entry to return; one call is one atomic step of the model.
\<close>

definition Mining :: "verifier \<Rightarrow> Blockchain \<Rightarrow> 64 word \<Rightarrow> (panic + bool \<times> Blockchain) option"
  where "Mining ecdsa_Verify bc now =
    (if slice_len (transactionPool bc) = 0 then Some (Inr (False, bc))
     else
       (case AddTransaction ecdsa_Verify bc MiningSender (blockchainAddress bc) MiningReward None None of
          Inl e \<Rightarrow> Some (Inl e)
        | Inr (_, bc1) \<Rightarrow>
           (case ProofOfWork bc1 of
              None \<Rightarrow> None
            | Some (Inl e) \<Rightarrow> Some (Inl e)
            | Some (Inr n) \<Rightarrow>
               (case LastBlock bc1 of
                  Inl e \<Rightarrow> Some (Inl e)
                | Inr lb \<Rightarrow> Some (Inr (True, snd (CreateBlock bc1 now n (Hash lb))))))))"

section \<open>Chain validation\<close>

text \<open>
  The walk of \<^verbatim>\<open>ValidChain\<close> from index 1; \<open>pre\<close> is \<^verbatim>\<open>preBlock\<close>.  Reading \<^verbatim>\<open>b.previousHash\<close>
  panics on a \<^verbatim>\<open>nil\<close> block.
\<close>

fun ValidChain_walk :: "Block option \<Rightarrow> Block option list \<Rightarrow> panic + bool"
  where
    "ValidChain_walk pre [] = Inr True"
  | "ValidChain_walk pre (None # rest) = Inl NilPointerDereference"
  | "ValidChain_walk pre (Some b # rest) =
      (if previousHash b \<noteq> Hash pre then Inr False
       else (case ValidProof (nonce b) (previousHash b) (transactions b) MiningDifficulty of
               Inl e \<Rightarrow> Inl e
             | Inr ok \<Rightarrow> if \<not> ok then Inr False else ValidChain_walk (Some b) rest))"

definition ValidChain :: "Block option list \<Rightarrow> panic + bool"
  where "ValidChain c = (case c of [] \<Rightarrow> Inl IndexOutOfRange | preBlock # rest \<Rightarrow> ValidChain_walk preBlock rest)"

section \<open>Decoding a block\<close>

text \<open>
  \<^verbatim>\<open>Block.UnmarshalJSON\<close> hands the text to \<^verbatim>\<open>json.Unmarshal\<close> with a struct of four pointers,
  three into the receiver and one to the local string \<^verbatim>\<open>previousHash\<close>.  The input is taken
  as the JSON value the text denotes.

  \<^verbatim>\<open>encoding/json\<close> matches an object key with a field when both are equal after case
  folding.  Folding maps the letters to one case and, outside ASCII, the long s (U+017F)
  to \<open>s\<close> and the Kelvin sign (U+212A) to \<open>k\<close>; a key is a string of UTF-8 bytes.
\<close>

definition ascii_lower :: "char \<Rightarrow> char"
  where "ascii_lower c =
    (let n = of_char c :: nat in if 65 \<le> n \<and> n \<le> 90 then char_of (n + 32) else c)"

fun fold_key :: "string \<Rightarrow> string"
  where
    "fold_key (a # b # c # r) =
      (if a = CHR 0xE2 \<and> b = CHR 0x84 \<and> c = CHR 0xAA then CHR ''k'' # fold_key r
       else if a = CHR 0xC5 \<and> b = CHR 0xBF then CHR ''s'' # fold_key (c # r)
       else ascii_lower a # fold_key (b # c # r))"
  | "fold_key [a, b] =
      (if a = CHR 0xC5 \<and> b = CHR 0xBF then [CHR ''s''] else [ascii_lower a, ascii_lower b])"
  | "fold_key [a] = [ascii_lower a]"
  | "fold_key [] = []"

definition key_matches :: "string \<Rightarrow> string \<Rightarrow> bool"
  where "key_matches tag k = (fold_key k = fold_key tag)"

text \<open>
  The state of the decoder while it walks the object.  For the three pointers into the
  receiver it records whether the pointer still points there: a JSON \<^verbatim>\<open>null\<close> sets a
  pointer field to \<^verbatim>\<open>nil\<close>, and a later value for the same key is stored in a fresh
  variable.  \<open>d_previousHash\<close> is what \<^verbatim>\<open>v.PreviousHash\<close> points to (\<open>None\<close>: it is \<^verbatim>\<open>nil\<close>).
\<close>

record decoder =
  d_timestamp :: "64 word"
  d_timestamp_bound :: bool
  d_nonce :: "64 word"
  d_nonce_bound :: bool
  d_previousHash :: "string option"
  d_transactions :: tx_slice
  d_transactions_bound :: bool

definition in_int64 :: "int \<Rightarrow> bool"
  where "in_int64 i = (- (2 ^ 63) \<le> i \<and> i < 2 ^ 63)"

text \<open>
  One member of the object; \<open>None\<close> when the decoder records an error, which makes
  \<^verbatim>\<open>json.Unmarshal\<close> return an error in the end.  Decoding the array of transactions
  (with \<^verbatim>\<open>Transaction.UnmarshalJSON\<close> and the parsing of \<^verbatim>\<open>float32\<close> literals) is the
  parameter \<open>dec_txs\<close>, \<open>None\<close> for an error.
\<close>

definition decode_member :: "(json \<Rightarrow> tx_slice option) \<Rightarrow> string \<Rightarrow> json \<Rightarrow> decoder \<Rightarrow> decoder option"
  where "decode_member dec_txs k v st =
    (if key_matches ''timestamp'' k then
       (case v of
          JNull \<Rightarrow> Some (st\<lparr>d_timestamp_bound := False\<rparr>)
        | JNumber i \<Rightarrow>
            if in_int64 i
            then Some (if d_timestamp_bound st then st\<lparr>d_timestamp := word_of_int i\<rparr> else st)
            else None
        | _ \<Rightarrow> None)
     else if key_matches ''nonce'' k then
       (case v of
          JNull \<Rightarrow> Some (st\<lparr>d_nonce_bound := False\<rparr>)
        | JNumber i \<Rightarrow>
            if in_int64 i
            then Some (if d_nonce_bound st then st\<lparr>d_nonce := word_of_int i\<rparr> else st)
            else None
        | _ \<Rightarrow> None)
     else if key_matches ''previous_hash'' k then
       (case v of
          JNull \<Rightarrow> Some (st\<lparr>d_previousHash := None\<rparr>)
        | JString s \<Rightarrow> Some (st\<lparr>d_previousHash := Some s\<rparr>)
        | _ \<Rightarrow> None)
     else if key_matches ''transactions'' k then
       (case v of
          JNull \<Rightarrow> Some (st\<lparr>d_transactions_bound := False\<rparr>)
        | _ \<Rightarrow>
           (case dec_txs v of
              None \<Rightarrow> None
            | Some ts \<Rightarrow> Some (if d_transactions_bound st then st\<lparr>d_transactions := ts\<rparr> else st)))
     else Some st)"

fun decode_members :: "(json \<Rightarrow> tx_slice option) \<Rightarrow> (string \<times> json) list \<Rightarrow> decoder \<Rightarrow> decoder option"
  where
    "decode_members dec_txs [] st = Some st"
  | "decode_members dec_txs (kv # r) st =
      (case decode_member dec_txs (fst kv) (snd kv) st of
         None \<Rightarrow> None
       | Some st' \<Rightarrow> decode_members dec_txs r st')"

definition decoder_init :: "Block \<Rightarrow> decoder"
  where "decoder_init b =
    \<lparr>d_timestamp = timestamp b, d_timestamp_bound = True,
     d_nonce = nonce b, d_nonce_bound = True,
     d_previousHash = Some [],
     d_transactions = transactions b, d_transactions_bound = True\<rparr>"

text \<open>
  \<^verbatim>\<open>hex.DecodeString\<close> as in the current standard library: it allocates \<^verbatim>\<open>len(s)/2\<close> bytes,
  decodes pairs of digits until the first byte that is not a hexadecimal digit, and returns
  the decoded prefix of that buffer.  The code drops the error and takes \<^verbatim>\<open>ph[:32]\<close>, which
  re-slices up to the capacity: it panics when the buffer has fewer than 32 bytes, and
  otherwise exposes the zero bytes behind the decoded prefix.  \<open>hex_DecodeString_buffer\<close>
  is the whole buffer.
\<close>

definition hexval :: "char \<Rightarrow> bool list option"
  where "hexval c =
    map_of (hextable @
      [(CHR ''A'', [False, True, False, True]), (CHR ''B'', [True, True, False, True]),
       (CHR ''C'', [False, False, True, True]), (CHR ''D'', [True, False, True, True]),
       (CHR ''E'', [False, True, True, True]), (CHR ''F'', [True, True, True, True])]) c"

fun hex_pairs :: "string \<Rightarrow> string"
  where
    "hex_pairs (p # q # r) =
      (case hexval p of
         None \<Rightarrow> []
       | Some hi \<Rightarrow>
          (case hexval q of
             None \<Rightarrow> []
           | Some lo \<Rightarrow> bytes_of_bits (lo @ hi) @ hex_pairs r))"
  | "hex_pairs _ = []"

definition hex_DecodeString_buffer :: "string \<Rightarrow> string"
  where "hex_DecodeString_buffer s =
    (let d = hex_pairs s in d @ replicate (length s div 2 - length d) (CHR 0x00))"

datatype go_error = JsonError

text \<open>
  The result of \<^verbatim>\<open>Block.UnmarshalJSON\<close>: a panic, the returned error, or \<^verbatim>\<open>nil\<close> with the
  receiver as it is then.  The text \<^verbatim>\<open>null\<close> sets \<^verbatim>\<open>v\<close> itself to \<^verbatim>\<open>nil\<close>; any value other
  than an object is an error of \<^verbatim>\<open>json.Unmarshal\<close>.
\<close>

definition Block_UnmarshalJSON :: "(json \<Rightarrow> tx_slice option) \<Rightarrow> Block \<Rightarrow> json \<Rightarrow> panic + go_error + Block"
  where "Block_UnmarshalJSON dec_txs b data =
    (case data of
       JNull \<Rightarrow> Inl NilPointerDereference
     | JObject kvs \<Rightarrow>
        (case decode_members dec_txs kvs (decoder_init b) of
           None \<Rightarrow> Inr (Inl JsonError)
         | Some st \<Rightarrow>
            (case d_previousHash st of
               None \<Rightarrow> Inl NilPointerDereference
             | Some s \<Rightarrow>
                 (let ph = hex_DecodeString_buffer s in
                  if length ph < 32 then Inl SliceBoundsOutOfRange
                  else Inr (Inr \<lparr>timestamp = d_timestamp st, nonce = d_nonce st,
                                 previousHash = take 32 ph, transactions = d_transactions st\<rparr>))))
     | _ \<Rightarrow> Inr (Inl JsonError))"

text \<open>The values an object gives for a field, in the order of the text.\<close>

definition member_values :: "string \<Rightarrow> (string \<times> json) list \<Rightarrow> json list"
  where "member_values tag kvs = map snd (filter (\<lambda>kv. key_matches tag (fst kv)) kvs)"

section \<open>Decoding a chain\<close>

text \<open>
  \<open>ResolveConflicts\<close> decodes the body of a response into a new \<^verbatim>\<open>Blockchain\<close> and drops the
  error, so what it goes on with is the chain as the decoder left it.  The decoder calls
  \<^verbatim>\<open>Blockchain.UnmarshalJSON\<close>, which decodes the array under the key \<^verbatim>\<open>chain\<close> and calls
  \<^verbatim>\<open>Block.UnmarshalJSON\<close> on a new block for every element, which in turn calls
  \<^verbatim>\<open>Transaction.UnmarshalJSON\<close> on a new transaction for every element of \<^verbatim>\<open>transactions\<close>.
  The functions of this section give, besides the outcome, the receiver as the call leaves
  it.

  How \<^verbatim>\<open>encoding/json\<close> treats errors decides what is left.  A value of the wrong type, or
  a number out of range, is recorded and decoding goes on; the first such error is returned
  at the end.  An error returned by an \<^verbatim>\<open>UnmarshalJSON\<close> method stops the decoding at once: the
  element is in the slice as far as it was decoded, and the rest of the text is not read.
  A panic is not caught.  A \<^verbatim>\<open>null\<close> sets a pointer to \<^verbatim>\<open>nil\<close>: an element of a slice becomes
  \<^verbatim>\<open>nil\<close> without any call, and a field of the struct of pointers no longer points into the
  receiver.  The numbers of a text are integer literals here, as in \<open>json\<close>.

  \<^verbatim>\<open>strconv.ParseFloat\<close> at 32 bits on an integer literal: the nearest \<^verbatim>\<open>float32\<close>, ties to
  the even mantissa, and an error when the magnitude is out of range.  \<open>bitlen m\<close> is the
  number of binary digits of \<open>m\<close>; the result is the bit pattern.
\<close>

fun bitlen :: "nat \<Rightarrow> nat"
  where "bitlen m = (if m = 0 then 0 else Suc (bitlen (m div 2)))"

declare bitlen.simps [simp del]

definition float32_of_int :: "int \<Rightarrow> float32 option"
  where "float32_of_int i =
    (if i = 0 then Some 0
     else
       (let m = nat \<bar>i\<bar>;
            n = bitlen m;
            q = (if n \<le> 24 then m * 2 ^ (24 - n)
                 else (let d = 2 ^ (n - 24); q0 = m div d; r = m mod d in
                       if d < 2 * r \<or> (2 * r = d \<and> odd q0) then q0 + 1 else q0));
            e = (if q = 2 ^ 24 then n else n - 1);
            f = (if q = 2 ^ 24 then 0 else q - 2 ^ 23)
        in if 127 < e then None
           else Some (word_of_nat ((if i < 0 then 2 ^ 31 else 0) + (e + 127) * 2 ^ 23 + f))))"

text \<open>
  \<^verbatim>\<open>Transaction.UnmarshalJSON\<close>: a struct of three pointers into the receiver.  It returns the
  error of \<^verbatim>\<open>json.Unmarshal\<close>; the result is whether that error is not \<^verbatim>\<open>nil\<close>, and the receiver.
\<close>

definition zero_Transaction :: Transaction
  where "zero_Transaction =
    \<lparr>senderBlockchainAddress = [], recipientBlockchainAddress = [], amount = 0\<rparr>"

record Transaction_decoder =
  dt_receiver :: Transaction
  dt_sender_bound :: bool
  dt_recipient_bound :: bool
  dt_value_bound :: bool
  dt_error :: bool

definition Transaction_member :: "string \<Rightarrow> json \<Rightarrow> Transaction_decoder \<Rightarrow> Transaction_decoder"
  where "Transaction_member k v st =
    (if key_matches ''sender_blockchain_address'' k then
       (case v of
          JNull \<Rightarrow> st\<lparr>dt_sender_bound := False\<rparr>
        | JString s \<Rightarrow>
            if dt_sender_bound st
            then st\<lparr>dt_receiver := (dt_receiver st)\<lparr>senderBlockchainAddress := s\<rparr>\<rparr>
            else st
        | _ \<Rightarrow> st\<lparr>dt_error := True\<rparr>)
     else if key_matches ''recipient_blockchain_address'' k then
       (case v of
          JNull \<Rightarrow> st\<lparr>dt_recipient_bound := False\<rparr>
        | JString s \<Rightarrow>
            if dt_recipient_bound st
            then st\<lparr>dt_receiver := (dt_receiver st)\<lparr>recipientBlockchainAddress := s\<rparr>\<rparr>
            else st
        | _ \<Rightarrow> st\<lparr>dt_error := True\<rparr>)
     else if key_matches ''value'' k then
       (case v of
          JNull \<Rightarrow> st\<lparr>dt_value_bound := False\<rparr>
        | JNumber i \<Rightarrow>
           (case float32_of_int i of
              None \<Rightarrow> st\<lparr>dt_error := True\<rparr>
            | Some x \<Rightarrow>
                if dt_value_bound st then st\<lparr>dt_receiver := (dt_receiver st)\<lparr>amount := x\<rparr>\<rparr>
                else st)
        | _ \<Rightarrow> st\<lparr>dt_error := True\<rparr>)
     else st)"

definition Transaction_UnmarshalJSON :: "Transaction \<Rightarrow> json \<Rightarrow> bool \<times> Transaction"
  where "Transaction_UnmarshalJSON t data =
    (case data of
       JNull \<Rightarrow> (False, t)
     | JObject kvs \<Rightarrow>
        (let st = fold (\<lambda>kv. Transaction_member (fst kv) (snd kv)) kvs
                    \<lparr>dt_receiver = t, dt_sender_bound = True, dt_recipient_bound = True,
                     dt_value_bound = True, dt_error = False\<rparr>
         in (dt_error st, dt_receiver st))
     | _ \<Rightarrow> (True, t))"

text \<open>
  An array decoded into a slice of pointers whose elements are \<open>cur\<close>.  The element at an
  index the slice already has is decoded into; a \<^verbatim>\<open>nil\<close> or missing one is allocated first.
  When the call for an element returns an error the slice keeps that element and what was
  behind it; otherwise the slice ends with the array.  The result is whether an error
  stopped the decoding, and the elements.

  A slice is its elements here.  What a shorter array leaves in the spare capacity, to be
  met again by a third array under the same key, is not represented.
\<close>

fun decode_elements ::
    "('a \<Rightarrow> json \<Rightarrow> panic + bool \<times> 'a) \<Rightarrow> 'a \<Rightarrow> 'a option list \<Rightarrow> json list
      \<Rightarrow> panic + bool \<times> 'a option list"
  where
    "decode_elements dec zero cur [] = Inr (False, [])"
  | "decode_elements dec zero cur (JNull # es) =
      (case decode_elements dec zero (tl cur) es of
         Inl p \<Rightarrow> Inl p
       | Inr (stopped, r) \<Rightarrow> Inr (stopped, None # r))"
  | "decode_elements dec zero cur (e # es) =
      (case dec (case cur of Some x # _ \<Rightarrow> x | _ \<Rightarrow> zero) e of
         Inl p \<Rightarrow> Inl p
       | Inr (err, x) \<Rightarrow>
           if err then Inr (True, Some x # tl cur)
           else (case decode_elements dec zero (tl cur) es of
                   Inl p \<Rightarrow> Inl p
                 | Inr (stopped, r) \<Rightarrow> Inr (stopped, Some x # r)))"

definition slice_elements :: "'a list option \<Rightarrow> 'a list"
  where "slice_elements s = (case s of None \<Rightarrow> [] | Some xs \<Rightarrow> xs)"

text \<open>
  \<^verbatim>\<open>Block.UnmarshalJSON\<close> with the receiver it leaves (\<open>Block_UnmarshalJSON\<close> above is its
  outcome, with the decoding of the transactions as a parameter).  \<open>db_transactions\<close> is the slice that
  \<^verbatim>\<open>v.Transaction\<close> points to: the one of the receiver, or after a \<^verbatim>\<open>null\<close> a new one.  The
  result of a member says whether the decoding stops there.
\<close>

record Block_decoder =
  db_receiver :: Block
  db_timestamp_bound :: bool
  db_nonce_bound :: bool
  db_previousHash :: "string option"
  db_transactions :: tx_slice
  db_transactions_bound :: bool
  db_error :: bool

definition Block_member :: "string \<Rightarrow> json \<Rightarrow> Block_decoder \<Rightarrow> panic + bool \<times> Block_decoder"
  where "Block_member k v st =
    (if key_matches ''timestamp'' k then
       (case v of
          JNull \<Rightarrow> Inr (False, st\<lparr>db_timestamp_bound := False\<rparr>)
        | JNumber i \<Rightarrow>
            if in_int64 i
            then Inr (False, if db_timestamp_bound st
                         then st\<lparr>db_receiver := (db_receiver st)\<lparr>timestamp := word_of_int i\<rparr>\<rparr>
                         else st)
            else Inr (False, st\<lparr>db_error := True\<rparr>)
        | _ \<Rightarrow> Inr (False, st\<lparr>db_error := True\<rparr>))
     else if key_matches ''nonce'' k then
       (case v of
          JNull \<Rightarrow> Inr (False, st\<lparr>db_nonce_bound := False\<rparr>)
        | JNumber i \<Rightarrow>
            if in_int64 i
            then Inr (False, if db_nonce_bound st
                         then st\<lparr>db_receiver := (db_receiver st)\<lparr>nonce := word_of_int i\<rparr>\<rparr>
                         else st)
            else Inr (False, st\<lparr>db_error := True\<rparr>)
        | _ \<Rightarrow> Inr (False, st\<lparr>db_error := True\<rparr>))
     else if key_matches ''previous_hash'' k then
       (case v of
          JNull \<Rightarrow> Inr (False, st\<lparr>db_previousHash := None\<rparr>)
        | JString s \<Rightarrow> Inr (False, st\<lparr>db_previousHash := Some s\<rparr>)
        | _ \<Rightarrow> Inr (False, st\<lparr>db_error := True\<rparr>))
     else if key_matches ''transactions'' k then
       (case v of
          JNull \<Rightarrow> Inr (False, st\<lparr>db_transactions := None, db_transactions_bound := False\<rparr>)
        | JArray es \<Rightarrow>
           (case decode_elements (\<lambda>t e. Inr (Transaction_UnmarshalJSON t e)) zero_Transaction
                   (slice_elements (db_transactions st)) es of
              Inl p \<Rightarrow> Inl p
            | Inr (stopped, r) \<Rightarrow>
                Inr (stopped,
                     (if db_transactions_bound st
                      then st\<lparr>db_receiver := (db_receiver st)\<lparr>transactions := Some r\<rparr>\<rparr>
                      else st)
                     \<lparr>db_transactions := Some r, db_error := db_error st \<or> stopped\<rparr>))
        | _ \<Rightarrow> Inr (False, st\<lparr>db_error := True\<rparr>))
     else Inr (False, st))"

fun Block_members :: "(string \<times> json) list \<Rightarrow> Block_decoder \<Rightarrow> panic + Block_decoder"
  where
    "Block_members [] st = Inr st"
  | "Block_members (kv # r) st =
      (case Block_member (fst kv) (snd kv) st of
         Inl p \<Rightarrow> Inl p
       | Inr (stopped, st') \<Rightarrow> if stopped then Inr st' else Block_members r st')"

definition Block_UnmarshalJSON_receiver :: "Block \<Rightarrow> json \<Rightarrow> panic + bool \<times> Block"
  where "Block_UnmarshalJSON_receiver b data =
    (case data of
       JNull \<Rightarrow> Inl NilPointerDereference
     | JObject kvs \<Rightarrow>
        (case Block_members kvs
                \<lparr>db_receiver = b, db_timestamp_bound = True, db_nonce_bound = True,
                 db_previousHash = Some [], db_transactions = transactions b,
                 db_transactions_bound = True, db_error = False\<rparr> of
           Inl p \<Rightarrow> Inl p
         | Inr st \<Rightarrow>
             if db_error st then Inr (True, db_receiver st)
             else (case db_previousHash st of
                     None \<Rightarrow> Inl NilPointerDereference
                   | Some s \<Rightarrow>
                       (let ph = hex_DecodeString_buffer s in
                        if length ph < 32 then Inl SliceBoundsOutOfRange
                        else Inr (False, (db_receiver st)\<lparr>previousHash := take 32 ph\<rparr>))))
     | _ \<Rightarrow> Inr (True, b))"

text \<open>
  \<^verbatim>\<open>Blockchain.UnmarshalJSON\<close>: one pointer, to the chain of the receiver, under the key
  \<^verbatim>\<open>chain\<close>.  \<open>dc_chain\<close> is the slice that \<^verbatim>\<open>v.Blocks\<close> points to.
\<close>

record Blockchain_decoder =
  dc_receiver :: Blockchain
  dc_chain :: "Block option list"
  dc_chain_bound :: bool
  dc_error :: bool

definition Blockchain_member ::
    "string \<Rightarrow> json \<Rightarrow> Blockchain_decoder \<Rightarrow> panic + bool \<times> Blockchain_decoder"
  where "Blockchain_member k v st =
    (if key_matches ''chain'' k then
       (case v of
          JNull \<Rightarrow> Inr (False, st\<lparr>dc_chain := [], dc_chain_bound := False\<rparr>)
        | JArray es \<Rightarrow>
           (case decode_elements Block_UnmarshalJSON_receiver zero_Block (dc_chain st) es of
              Inl p \<Rightarrow> Inl p
            | Inr (stopped, r) \<Rightarrow>
                Inr (stopped,
                     (if dc_chain_bound st then st\<lparr>dc_receiver := (dc_receiver st)\<lparr>chain := r\<rparr>\<rparr>
                      else st)
                     \<lparr>dc_chain := r, dc_error := dc_error st \<or> stopped\<rparr>))
        | _ \<Rightarrow> Inr (False, st\<lparr>dc_error := True\<rparr>))
     else Inr (False, st))"

fun Blockchain_members ::
    "(string \<times> json) list \<Rightarrow> Blockchain_decoder \<Rightarrow> panic + Blockchain_decoder"
  where
    "Blockchain_members [] st = Inr st"
  | "Blockchain_members (kv # r) st =
      (case Blockchain_member (fst kv) (snd kv) st of
         Inl p \<Rightarrow> Inl p
       | Inr (stopped, st') \<Rightarrow> if stopped then Inr st' else Blockchain_members r st')"

definition Blockchain_UnmarshalJSON :: "Blockchain \<Rightarrow> json \<Rightarrow> panic + bool \<times> Blockchain"
  where "Blockchain_UnmarshalJSON bc data =
    (case data of
       JNull \<Rightarrow> Inr (False, bc)
     | JObject kvs \<Rightarrow>
        (case Blockchain_members kvs
                \<lparr>dc_receiver = bc, dc_chain = chain bc, dc_chain_bound = True, dc_error = False\<rparr> of
           Inl p \<Rightarrow> Inl p
         | Inr st \<Rightarrow> Inr (dc_error st, dc_receiver st))
     | _ \<Rightarrow> Inr (True, bc))"

section \<open>Conflict resolution\<close>

text \<open>
  What \<^verbatim>\<open>http.Get\<close> returns for an endpoint: \<open>None\<close> when the transport fails (the response
  is \<^verbatim>\<open>nil\<close> and the error, which the code drops, is not), otherwise the status code and the
  body.  The body is the JSON value its text starts with, \<open>None\<close> when there is none: then
  \<^verbatim>\<open>Decode\<close> returns an error and leaves \<^verbatim>\<open>bcResp\<close> as it is.
\<close>

record Response =
  StatusCode :: int
  Body :: "json option"

type_synonym http_Get = "string \<Rightarrow> Response option"

definition chain_endpoint :: "string \<Rightarrow> string"
  where "chain_endpoint n = ''https://'' @ n @ ''/chain''"

definition Decode :: "json option \<Rightarrow> Blockchain \<Rightarrow> panic + bool \<times> Blockchain"
  where "Decode body bcResp =
    (case body of None \<Rightarrow> Inr (True, bcResp) | Some data \<Rightarrow> Blockchain_UnmarshalJSON bcResp data)"

text \<open>The loop over the neighbours, with \<^verbatim>\<open>longestChain\<close> and \<^verbatim>\<open>maxLength\<close> as loop state.\<close>

fun ResolveConflicts_loop ::
    "http_Get \<Rightarrow> string list \<Rightarrow> Block option list option \<Rightarrow> nat \<Rightarrow> panic + Block option list option"
  where
    "ResolveConflicts_loop get [] longestChain maxLength = Inr longestChain"
  | "ResolveConflicts_loop get (n # ns) longestChain maxLength =
      (case get (chain_endpoint n) of
         None \<Rightarrow> Inl NilPointerDereference
       | Some resp \<Rightarrow>
           if StatusCode resp = 200
           then (case Decode (Body resp) zero_Blockchain of
                   Inl e \<Rightarrow> Inl e
                 | Inr (err, bcResp) \<Rightarrow>
                    (let c = chain bcResp in
                     if length c > maxLength
                     then (case ValidChain c of
                             Inl e \<Rightarrow> Inl e
                           | Inr ok \<Rightarrow>
                               if ok then ResolveConflicts_loop get ns (Some c) (length c)
                               else ResolveConflicts_loop get ns longestChain maxLength)
                     else ResolveConflicts_loop get ns longestChain maxLength))
           else ResolveConflicts_loop get ns longestChain maxLength)"

definition ResolveConflicts :: "http_Get \<Rightarrow> Blockchain \<Rightarrow> panic + (bool \<times> Blockchain)"
  where "ResolveConflicts get bc =
    (case ResolveConflicts_loop get (neighbors bc) None (length (chain bc)) of
       Inl e \<Rightarrow> Inl e
     | Inr None \<Rightarrow> Inr (False, bc)
     | Inr (Some c) \<Rightarrow> Inr (True, bc\<lparr>chain := c\<rparr>))"

section \<open>Reachable states and the properties of a chain\<close>

text \<open>
  The states a node reaches through the operations its server calls: creation, admission
  of a transaction, clearing of the pool, a refresh of the neighbour list, mining and
  conflict resolution.  Only calls that return are steps.
\<close>

inductive reachable :: "verifier \<Rightarrow> Blockchain \<Rightarrow> bool"
  for V :: verifier
  where
    created: "reachable V (NewBlockchain addr p now)"
  | added: "reachable V bc \<Longrightarrow> AddTransaction V bc sender recipient v pk s = Inr (ok, bc')
        \<Longrightarrow> reachable V bc'"
  | cleared: "reachable V bc \<Longrightarrow> reachable V (ClearTransactionPool bc)"
  | neighbors_set: "reachable V bc \<Longrightarrow> reachable V (bc\<lparr>neighbors := ns\<rparr>)"
  | mined: "reachable V bc \<Longrightarrow> Mining V bc now = Some (Inr (ok, bc')) \<Longrightarrow> reachable V bc'"
  | resolved: "reachable V bc \<Longrightarrow> ResolveConflicts get bc = Inr (ok, bc') \<Longrightarrow> reachable V bc'"

text \<open>A string starts with \<open>D\<close> characters \<open>0\<close>.\<close>

definition starts_with_zeros :: "int \<Rightarrow> string \<Rightarrow> bool"
  where "starts_with_zeros D s =
    (0 \<le> D \<and> nat D \<le> length s \<and> list_all (\<lambda>c. c = CHR ''0'') (take (nat D) s))"

text \<open>
  Every block after the first is linked to its predecessor and carries a proof of work:
  its nonce passes \<open>ValidProof\<close>.
\<close>

definition linked_and_proved :: "Block option list \<Rightarrow> bool"
  where "linked_and_proved c =
    (\<forall>i. 0 < i \<and> i < length c \<longrightarrow>
      (\<exists>b. c ! i = Some b \<and> previousHash b = Hash (c ! (i - 1)) \<and>
           ValidProof (nonce b) (previousHash b) (transactions b) MiningDifficulty = Inr True))"

text \<open>
  Every block after the first is linked to its predecessor and its own hash, timestamp
  included, starts with \<open>MiningDifficulty\<close> zeros.
\<close>

definition linked_and_hash_zeros :: "Block option list \<Rightarrow> bool"
  where "linked_and_hash_zeros c =
    (\<forall>i. 0 < i \<and> i < length c \<longrightarrow>
      (\<exists>b. c ! i = Some b \<and> previousHash b = Hash (c ! (i - 1))) \<and>
      starts_with_zeros MiningDifficulty (hex (Hash (c ! i))))"

text \<open>
  Conflict resolution.  \<open>received\<close> is the chain that \<open>ResolveConflicts\<close> reads from a
  response: what decoding the body leaves in \<^verbatim>\<open>bcResp.chain\<close>, or the panic of the decoding.
  A neighbour \<open>answers\<close> when the fetch gives a response and, if its status is 200, the
  decoding of its body does not panic.  \<open>reported\<close> are the chains received with status 200,
  in the order of the neighbour list (\<open>reported_by\<close>: from one neighbour); \<open>qualifies\<close> is what makes one of them a replacement
  for a chain of length \<open>l\<close>.
\<close>

definition received :: "Response \<Rightarrow> panic + Block option list"
  where "received resp =
    (case Decode (Body resp) zero_Blockchain of
       Inl e \<Rightarrow> Inl e
     | Inr (err, bcResp) \<Rightarrow> Inr (chain bcResp))"

definition answers :: "http_Get \<Rightarrow> string \<Rightarrow> bool"
  where "answers get n =
    (case get (chain_endpoint n) of
       None \<Rightarrow> False
     | Some resp \<Rightarrow> StatusCode resp \<noteq> 200 \<or> \<not> isl (received resp))"

definition reported_by :: "http_Get \<Rightarrow> string \<Rightarrow> Block option list list"
  where "reported_by get n =
    (case get (chain_endpoint n) of
       None \<Rightarrow> []
     | Some resp \<Rightarrow>
         if StatusCode resp = 200
         then (case received resp of Inl e \<Rightarrow> [] | Inr c \<Rightarrow> [c])
         else [])"

definition reported :: "http_Get \<Rightarrow> string list \<Rightarrow> Block option list list"
  where "reported get ns = concat (map (reported_by get) ns)"

definition qualifies :: "nat \<Rightarrow> Block option list \<Rightarrow> bool"
  where "qualifies l c = (l < length c \<and> ValidChain c = Inr True)"

section \<open>A concrete run\<close>

text \<open>
  The states of one run, used to evaluate the operations: a node is created, takes one
  transaction issued by the system sender, and mines it; later blocks extend the chain.
  The timestamps are readings of the clock in nanoseconds.
\<close>

definition no_verifier :: verifier
  where "no_verifier pk h r s = False"

definition genesis :: Block
  where "genesis =
    \<lparr>timestamp = 1700000000000004580, nonce = 0, previousHash = Hash (Some zero_Block), transactions = None\<rparr>"

definition node0 :: Blockchain
  where "node0 = NewBlockchain ''miner'' 5000 1700000000000004580"

definition tx1 :: Transaction
  where "tx1 = NewTransaction MiningSender ''alice'' MiningReward"

definition reward :: Transaction
  where "reward = NewTransaction MiningSender ''miner'' MiningReward"

definition node1 :: Blockchain
  where "node1 = node0\<lparr>transactionPool := Some [Some tx1]\<rparr>"

text \<open>The pool of \<open>node1\<close> after \<open>Mining\<close> has added the reward.\<close>

definition node1r :: Blockchain
  where "node1r = node1\<lparr>transactionPool := Some [Some tx1, Some reward]\<rparr>"

definition block1 :: Block
  where "block1 =
    \<lparr>timestamp = 1700000020000004580, nonce = 0, previousHash = Hash (Some genesis),
     transactions = Some [Some tx1, Some reward]\<rparr>"

definition node2 :: Blockchain
  where "node2 = node1\<lparr>chain := [Some genesis, Some block1], transactionPool := Some []\<rparr>"

definition block2 :: Block
  where "block2 =
    \<lparr>timestamp = 1700000040000004580, nonce = 2150, previousHash = Hash (Some block1),
     transactions = Some [Some tx1, Some reward]\<rparr>"

definition block3 :: Block
  where "block3 =
    \<lparr>timestamp = 1700000060000004580, nonce = 362, previousHash = Hash (Some block2),
     transactions = Some [Some tx1, Some reward]\<rparr>"

text \<open>
  A node with a chain of three blocks and two neighbours.  The first neighbour reports five
  blocks, of which the second does not link to the first; the second neighbour reports
  four blocks that link and carry their proofs.
\<close>

definition node3 :: Blockchain
  where "node3 =
    node2\<lparr>chain := [Some genesis, Some block1, Some block2],
          neighbors := [''127.0.0.1:5001'', ''127.0.0.1:5002'']\<rparr>"

definition forged :: Block
  where "forged = block1\<lparr>previousHash := replicate 32 (CHR 0x00)\<rparr>"

definition chain5 :: "Block option list"
  where "chain5 = [Some genesis, Some forged, Some forged, Some forged, Some forged]"

definition chain4 :: "Block option list"
  where "chain4 = [Some genesis, Some block1, Some block2, Some block3]"

text \<open>
  The bodies the two neighbours send, in the form that \<^verbatim>\<open>Blockchain.UnmarshalJSON\<close>,
  \<^verbatim>\<open>Block.UnmarshalJSON\<close> and \<^verbatim>\<open>Transaction.UnmarshalJSON\<close> read: the blocks under the key
  \<^verbatim>\<open>chain\<close>, the previous hash in hexadecimal digits under the key \<^verbatim>\<open>previous_hash\<close>.
\<close>

definition body_transaction :: "string \<Rightarrow> json"
  where "body_transaction recipient =
    JObject [(''sender_blockchain_address'', JString ''THE BLOCKCHAIN''),
             (''recipient_blockchain_address'', JString recipient),
             (''value'', JNumber 1)]"

definition body_transactions :: json
  where "body_transactions = JArray [body_transaction ''alice'', body_transaction ''miner'']"

definition body_block :: "Block \<Rightarrow> json \<Rightarrow> json"
  where "body_block b txs =
    JObject [(''timestamp'', JNumber (sint (timestamp b))),
             (''nonce'', JNumber (sint (nonce b))),
             (''previous_hash'', JString (hex (previousHash b))),
             (''transactions'', txs)]"

definition body5 :: json
  where "body5 =
    JObject [(''chain'',
      JArray [body_block genesis JNull, body_block forged body_transactions,
              body_block forged body_transactions, body_block forged body_transactions,
              body_block forged body_transactions])]"

definition body4 :: json
  where "body4 =
    JObject [(''chain'',
      JArray [body_block genesis JNull, body_block block1 body_transactions,
              body_block block2 body_transactions, body_block block3 body_transactions])]"

definition neighbours_get :: http_Get
  where "neighbours_get url =
    (if url = chain_endpoint ''127.0.0.1:5001'' then Some \<lparr>StatusCode = 200, Body = Some body5\<rparr>
     else if url = chain_endpoint ''127.0.0.1:5002'' then Some \<lparr>StatusCode = 200, Body = Some body4\<rparr>
     else None)"

section \<open>The digest has 32 bytes\<close>

lemma length_xor32: "length (xor32 x y) = min (length x) (length y)"
  by (induction x y rule: xor32.induct) auto

lemma length_ch: "length (ch x y z) = min (length x) (min (length y) (length z))"
  by (induction x y z rule: ch.induct) auto

lemma length_maj: "length (maj x y z) = min (length x) (min (length y) (length z))"
  by (induction x y z rule: maj.induct) auto

lemma length_addc: "length (addc c x y) = min (length x) (length y)"
  by (induction c x y rule: addc.induct) auto

lemma length_add32: "length x = 32 \<Longrightarrow> length y = 32 \<Longrightarrow> length (add32 x y) = 32"
  by (simp add: add32_def length_addc)

lemma length_rotr: "length (rotr n x) = length x"
  by (simp add: rotr_def)

lemma length_shr: "n \<le> length x \<Longrightarrow> length (shr n x) = length x"
  by (simp add: shr_def)

lemma length_sigmas:
  assumes "length x = 32"
  shows "length (ssig0 x) = 32" "length (ssig1 x) = 32" "length (bsig0 x) = 32" "length (bsig1 x) = 32"
  using assms by (simp_all add: ssig0_def ssig1_def bsig0_def bsig1_def length_xor32 length_rotr length_shr)

lemma wf_step: "length k = 32 \<Longrightarrow> length w = 32 \<Longrightarrow> wf_state s \<Longrightarrow> wf_state (step k w s)"
  by (cases s) (simp add: length_add32 length_sigmas length_ch length_maj)

lemma wf_slide: "list_all (\<lambda>w. length w = 32) win \<Longrightarrow> list_all (\<lambda>w. length w = 32) (slide win)"
  by (cases win rule: slide.cases) (simp_all add: length_add32 length_sigmas)

lemma wf_rounds:
  "list_all (\<lambda>w. length w = 32) ks \<Longrightarrow> list_all (\<lambda>w. length w = 32) win \<Longrightarrow> win \<noteq> [] \<Longrightarrow> wf_state s
    \<Longrightarrow> wf_state (rounds ks win s)"
proof (induction ks arbitrary: win s)
  case Nil
  then show ?case by simp
next
  case (Cons k ks)
  from Cons.prems have hd: "length (hd win) = 32"
    by (cases win) auto
  have ne: "slide win \<noteq> []"
    using Cons.prems(3) by (cases win rule: slide.cases) simp_all
  show ?case
    using Cons.prems hd ne by (simp add: Cons.IH wf_slide wf_step)
qed

lemma length_charbits: "length (charbits c) = 8"
  by (cases c) simp

lemma wf_be32: "list_all (\<lambda>w. length w = 32) (be32 m)"
  by (induction m rule: be32.induct) (simp_all add: length_charbits)

lemma length_hexbits: "length (hexbits c) = 4 \<or> hexbits c = []"
  by (auto simp: hexbits_def hextable_def split: option.splits if_splits)

lemma wf_K256: "list_all (\<lambda>w. length w = 32) K256"
  by (simp add: K256_def hexbits_def hextable_def)

lemma wf_H0: "wf_state H0"
  by (simp add: H0_def hexbits_def hextable_def)

lemma wf_add_state: "wf_state s \<Longrightarrow> wf_state t \<Longrightarrow> wf_state (add_state s t)"
  by (cases s; cases t) (simp add: length_add32)

lemma wf_compress:
  "list_all (\<lambda>w. length w = 32) ks \<Longrightarrow> list_all (\<lambda>w. length w = 32) w16 \<Longrightarrow> w16 \<noteq> [] \<Longrightarrow> wf_state s
    \<Longrightarrow> wf_state (compress ks s w16)"
  by (simp add: compress_def wf_add_state wf_rounds)

lemma list_all_take: "list_all P xs \<Longrightarrow> list_all P (take n xs)"
  by (auto simp: list_all_iff dest: in_set_takeD)

lemma list_all_drop: "list_all P xs \<Longrightarrow> list_all P (drop n xs)"
  by (auto simp: list_all_iff dest: in_set_dropD)

lemma wf_blocks:
  "list_all (\<lambda>w. length w = 32) ks \<Longrightarrow> list_all (\<lambda>w. length w = 32) ws \<Longrightarrow> wf_state s
    \<Longrightarrow> wf_state (blocks ks ws s)"
proof (induction ks ws s rule: blocks.induct)
  case (1 ks s)
  then show ?case by simp
next
  case (2 ks w ws s)
  have a: "list_all (\<lambda>w. length w = 32) (take 16 (w # ws))"
    using "2.prems"(2) by (rule list_all_take)
  have b: "list_all (\<lambda>w. length w = 32) (drop 16 (w # ws))"
    using "2.prems"(2) by (rule list_all_drop)
  have c: "take 16 (w # ws) \<noteq> []"
    by simp
  show ?case
    using "2.prems" a b c by (simp only: blocks.simps) (rule "2.IH", simp_all add: wf_compress)
qed

lemma length_bytes_of_bits: "length (bytes_of_bits bs) = length bs div 8"
  by (induction bs rule: bytes_of_bits.induct) simp_all

lemma length_digest: "wf_state s \<Longrightarrow> length (digest s) = 32"
  by (cases s) (simp add: length_bytes_of_bits)

lemma length_sha256: "length (sha256 m) = 32"
  by (simp add: sha256_def length_digest wf_blocks wf_K256 wf_be32 wf_H0)

lemma length_hexbyte: "length (hexbyte c) = 2"
  by (cases c) simp

lemma length_hex: "length (hex bs) = 2 * length bs"
  by (induction bs) (simp_all add: hex_def length_hexbyte)

lemma length_Hash: "length (Hash b) = 32"
  by (simp add: Hash_def length_sha256)

lemma length_hex_Hash: "length (hex (Hash b)) = 64"
  by (simp add: length_hex length_Hash)

section \<open>Proof of work never panics at the mining difficulty\<close>

lemma ValidProof_eq:
  "ValidProof n ph txs D =
    (if D < 0 then Inl NegativeRepeatCount
     else if 64 < D then Inl SliceBoundsOutOfRange
     else Inr (take (nat D) (hex (Hash (Some \<lparr>timestamp = 0, nonce = n, previousHash = ph, transactions = txs\<rparr>)))
               = replicate (nat D) (CHR ''0'')))"
  by (auto simp: ValidProof_def Let_def length_hex_Hash)

lemma ValidProof_difficulty:
  "ValidProof n ph txs MiningDifficulty =
    Inr (take 3 (hex (Hash (Some \<lparr>timestamp = 0, nonce = n, previousHash = ph, transactions = txs\<rparr>))) = ''000'')"
  by (simp add: ValidProof_eq MiningDifficulty_def eval_nat_numeral)

lemma take_replicate_zeros:
  assumes "n \<le> length s"
  shows "(take n s = replicate n c) = list_all (\<lambda>x. x = c) (take n s)"
proof
  assume "take n s = replicate n c"
  then show "list_all (\<lambda>x. x = c) (take n s)"
    by (simp add: list_all_iff)
next
  assume a: "list_all (\<lambda>x. x = c) (take n s)"
  from assms have "length (take n s) = n"
    by simp
  moreover have "replicate (length (take n s)) c = take n s"
    using a by (intro replicate_length_same) (simp add: list_all_iff)
  ultimately show "take n s = replicate n c"
    by simp
qed

lemma ValidProof_True_iff:
  "ValidProof n ph txs D = Inr True \<longleftrightarrow>
    starts_with_zeros D (hex (sha256 (Block_MarshalJSON \<lparr>timestamp = 0, nonce = n, previousHash = ph, transactions = txs\<rparr>)))"
proof -
  let ?h = "hex (Hash (Some \<lparr>timestamp = 0, nonce = n, previousHash = ph, transactions = txs\<rparr>))"
  have len: "length ?h = 64"
    by (rule length_hex_Hash)
  have h: "?h = hex (sha256 (Block_MarshalJSON \<lparr>timestamp = 0, nonce = n, previousHash = ph, transactions = txs\<rparr>))"
    by (simp add: Hash_def)
  show ?thesis
  proof (cases "0 \<le> D \<and> D \<le> 64")
    case True
    then have "nat D \<le> length ?h"
      using len by linarith
    then show ?thesis
      using True len take_replicate_zeros [of "nat D" ?h "CHR ''0''"]
      by (simp add: ValidProof_eq starts_with_zeros_def h [symmetric])
  next
    case False
    then show ?thesis
      using len by (auto simp: ValidProof_eq starts_with_zeros_def h [symmetric])
  qed
qed

section \<open>Conflict resolution: the loop\<close>

lemma ResolveConflicts_loop_Cons:
  "ResolveConflicts_loop get (n # ns) lc ml =
    (case get (chain_endpoint n) of
       None \<Rightarrow> Inl NilPointerDereference
     | Some resp \<Rightarrow>
         if StatusCode resp = 200
         then (case received resp of
                 Inl e \<Rightarrow> Inl e
               | Inr c \<Rightarrow>
                   if ml < length c
                   then (case ValidChain c of
                           Inl e \<Rightarrow> Inl e
                         | Inr ok \<Rightarrow>
                             if ok then ResolveConflicts_loop get ns (Some c) (length c)
                             else ResolveConflicts_loop get ns lc ml)
                   else ResolveConflicts_loop get ns lc ml)
         else ResolveConflicts_loop get ns lc ml)"
  by (simp add: received_def Let_def split: option.splits sum.splits prod.splits)

declare ResolveConflicts_loop.simps(2) [simp del]

lemma ResolveConflicts_loop_failed_fetch:
  "n \<in> set ns \<Longrightarrow> get (chain_endpoint n) = None
    \<Longrightarrow> \<exists>e. ResolveConflicts_loop get ns longestChain maxLength = Inl e"
proof (induction ns arbitrary: longestChain maxLength)
  case Nil
  then show ?case by simp
next
  case (Cons m ns)
  show ?case
  proof (cases "get (chain_endpoint m)")
    case None
    then show ?thesis by (simp add: ResolveConflicts_loop_Cons)
  next
    case (Some resp)
    with Cons.prems have "n \<in> set ns"
      by auto
    then have ih: "\<exists>e. ResolveConflicts_loop get ns lc ml = Inl e" for lc ml
      using Cons.IH Cons.prems(2) by blast
    show ?thesis
      using Some ih by (auto simp: ResolveConflicts_loop_Cons split: sum.splits)
  qed
qed

section \<open>The search loop\<close>

lemma ValidProof_difficulty_cases:
  "ValidProof n ph txs MiningDifficulty = Inr True \<or> ValidProof n ph txs MiningDifficulty = Inr False"
  by (simp add: ValidProof_difficulty)

lemma ProofOfWork_loop_finds:
  assumes valid: "ValidProof (word_of_nat j) ph txs MiningDifficulty = Inr True"
    and least: "\<And>i. i < j \<Longrightarrow> ValidProof (word_of_nat i) ph txs MiningDifficulty \<noteq> Inr True"
    and le: "k \<le> j"
  shows "ProofOfWork_loop ph txs (word_of_nat k) = Some (Inr (word_of_nat j))"
  using le
proof (induction "j - k" arbitrary: k)
  case 0
  then have "k = j"
    by simp
  then show ?case
    using valid by (subst ProofOfWork_loop.simps) simp
next
  case (Suc d)
  then have lt: "k < j" and d: "d = j - Suc k" and le': "Suc k \<le> j"
    by simp_all
  have "ValidProof (word_of_nat k) ph txs MiningDifficulty = Inr False"
    using least [OF lt] ValidProof_difficulty_cases [of "word_of_nat k" ph txs] by simp
  moreover have "ProofOfWork_loop ph txs (word_of_nat (Suc k)) = Some (Inr (word_of_nat j))"
    using Suc.hyps(1) [OF d le'] .
  ultimately show ?case
    by (subst ProofOfWork_loop.simps) (simp add: add.commute)
qed

lemma ProofOfWork_loop_valid:
  assumes "ProofOfWork_loop ph txs k = Some (Inr n)"
  shows "ValidProof n ph txs MiningDifficulty = Inr True"
proof -
  have "\<forall>n. r = Inr n \<longrightarrow> ValidProof n ph txs MiningDifficulty = Inr True"
    if "ProofOfWork_loop ph txs k = Some r" for r
    by (rule ProofOfWork_loop.raw_induct
          [where P = "\<lambda>ph txs k r. \<forall>n. r = Inr n \<longrightarrow> ValidProof n ph txs MiningDifficulty = Inr True",
           OF _ that])
       (auto split: sum.splits if_splits)
  then show ?thesis
    using assms by blast
qed

lemma sint_word_of_nat:
  assumes "j < 2 ^ 63"
  shows "sint (word_of_nat j :: 64 word) = int j"
proof -
  have "sint (word_of_nat j :: 64 word) = signed_take_bit 63 (int j)"
    by (simp add: signed_of_nat)
  also have "\<dots> = int j"
    using assms by (intro signed_take_bit_int_eq_self) auto
  finally show ?thesis .
qed

lemma word_of_nat_sint:
  fixes w :: "64 word"
  assumes "0 \<le> sint w"
  shows "word_of_nat (nat (sint w)) = w"
proof -
  have "word_of_nat (nat (sint w)) = (word_of_int (sint w) :: 64 word)"
    using assms by (simp add: word_of_int_nat)
  then show ?thesis
    by simp
qed

lemma nat_sint_bound:
  fixes w :: "64 word"
  shows "nat (sint w) < 2 ^ 63"
  using sint_lt [of w] by simp

text \<open>The smallest non-negative nonce, given that one exists.\<close>

lemma ProofOfWork_loop_least:
  assumes k: "0 \<le> sint k"
    and valid: "ValidProof k ph txs MiningDifficulty = Inr True"
  shows "\<exists>m. ProofOfWork_loop ph txs 0 = Some (Inr m) \<and> 0 \<le> sint m \<and> sint m \<le> sint k
          \<and> ValidProof m ph txs MiningDifficulty = Inr True
          \<and> (\<forall>j. 0 \<le> sint j \<and> sint j < sint m \<longrightarrow> ValidProof j ph txs MiningDifficulty \<noteq> Inr True)"
proof -
  let ?P = "\<lambda>i. ValidProof (word_of_nat i :: 64 word) ph txs MiningDifficulty = Inr True"
  define N where "N = nat (sint k)"
  have PN: "?P N"
    using valid k by (simp add: N_def word_of_nat_sint)
  define J where "J = (LEAST i. ?P i)"
  have PJ: "?P J"
    unfolding J_def using PN by (rule LeastI)
  have JN: "J \<le> N"
    unfolding J_def using PN by (rule Least_le)
  have least: "\<not> ?P i" if "i < J" for i
    using that not_less_Least unfolding J_def by blast
  have Nb: "N < 2 ^ 63"
    unfolding N_def by (rule nat_sint_bound)
  then have Jb: "J < 2 ^ 63"
    using JN by simp
  have sJ: "sint (word_of_nat J :: 64 word) = int J"
    using Jb by (rule sint_word_of_nat)
  have run: "ProofOfWork_loop ph txs (word_of_nat 0) = Some (Inr (word_of_nat J))"
    using PJ least by (intro ProofOfWork_loop_finds) auto
  have below: "ValidProof j ph txs MiningDifficulty \<noteq> Inr True"
    if "0 \<le> sint j" "sint j < sint (word_of_nat J :: 64 word)" for j
  proof -
    have "nat (sint j) < J"
      using that sJ by simp
    then have "\<not> ?P (nat (sint j))"
      by (rule least)
    then show ?thesis
      using that(1) by (simp add: word_of_nat_sint)
  qed
  have "sint (word_of_nat J :: 64 word) \<le> sint k"
    using sJ JN k by (simp add: N_def)
  then show ?thesis
    using run PJ sJ below by (intro exI [of _ "word_of_nat J"]) simp
qed

section \<open>Linked chains\<close>

lemma linked_and_proved_single: "linked_and_proved [a]"
  by (simp add: linked_and_proved_def)

lemma linked_and_proved_Cons:
  "linked_and_proved (a # b # r) \<longleftrightarrow>
    (\<exists>blk. b = Some blk \<and> previousHash blk = Hash a \<and>
       ValidProof (nonce blk) (previousHash blk) (transactions blk) MiningDifficulty = Inr True)
    \<and> linked_and_proved (b # r)"
proof
  assume l: "linked_and_proved (a # b # r)"
  have "\<exists>blk. b = Some blk \<and> previousHash blk = Hash a \<and>
       ValidProof (nonce blk) (previousHash blk) (transactions blk) MiningDifficulty = Inr True"
    using l [unfolded linked_and_proved_def, rule_format, of 1] by simp
  moreover have "linked_and_proved (b # r)"
    unfolding linked_and_proved_def
  proof (intro allI impI)
    fix i
    assume "0 < i \<and> i < length (b # r)"
    then show "\<exists>blk. (b # r) ! i = Some blk \<and> previousHash blk = Hash ((b # r) ! (i - 1)) \<and>
       ValidProof (nonce blk) (previousHash blk) (transactions blk) MiningDifficulty = Inr True"
      using l [unfolded linked_and_proved_def, rule_format, of "Suc i"] by simp
  qed
  ultimately show "(\<exists>blk. b = Some blk \<and> previousHash blk = Hash a \<and>
       ValidProof (nonce blk) (previousHash blk) (transactions blk) MiningDifficulty = Inr True)
    \<and> linked_and_proved (b # r)"
    by blast
next
  assume r: "(\<exists>blk. b = Some blk \<and> previousHash blk = Hash a \<and>
       ValidProof (nonce blk) (previousHash blk) (transactions blk) MiningDifficulty = Inr True)
    \<and> linked_and_proved (b # r)"
  show "linked_and_proved (a # b # r)"
    unfolding linked_and_proved_def
  proof (intro allI impI)
    fix i
    assume i: "0 < i \<and> i < length (a # b # r)"
    show "\<exists>blk. (a # b # r) ! i = Some blk \<and> previousHash blk = Hash ((a # b # r) ! (i - 1)) \<and>
       ValidProof (nonce blk) (previousHash blk) (transactions blk) MiningDifficulty = Inr True"
    proof (cases "i = 1")
      case True
      then show ?thesis
        using r by simp
    next
      case False
      then obtain j where j: "i = Suc j" "0 < j" "j < length (b # r)"
        using i by (cases i) auto
      then show ?thesis
        using r [THEN conjunct2, unfolded linked_and_proved_def, rule_format, of j] by simp
    qed
  qed
qed

lemma ValidChain_walk_linked:
  "ValidChain_walk pre rest = Inr True \<Longrightarrow> linked_and_proved (pre # rest)"
proof (induction rest arbitrary: pre)
  case Nil
  show ?case by (rule linked_and_proved_single)
next
  case (Cons x rest)
  show ?case
  proof (cases x)
    case None
    with Cons.prems show ?thesis by simp
  next
    case (Some b)
    with Cons.prems have
      "previousHash b = Hash pre"
      "ValidProof (nonce b) (previousHash b) (transactions b) MiningDifficulty = Inr True"
      "ValidChain_walk (Some b) rest = Inr True"
      by (auto split: if_splits sum.splits)
    then show ?thesis
      using Cons.IH [of "Some b"] Some by (simp add: linked_and_proved_Cons)
  qed
qed

lemma ValidChain_linked: "ValidChain c = Inr True \<Longrightarrow> linked_and_proved c"
  by (cases c) (simp_all add: ValidChain_def ValidChain_walk_linked)

lemma linked_and_proved_append:
  assumes "c \<noteq> []" "linked_and_proved c" "previousHash b = Hash (last c)"
    and "ValidProof (nonce b) (previousHash b) (transactions b) MiningDifficulty = Inr True"
  shows "linked_and_proved (c @ [Some b])"
  unfolding linked_and_proved_def
proof (intro allI impI)
  fix i
  assume i: "0 < i \<and> i < length (c @ [Some b])"
  show "\<exists>blk. (c @ [Some b]) ! i = Some blk \<and> previousHash blk = Hash ((c @ [Some b]) ! (i - 1)) \<and>
       ValidProof (nonce blk) (previousHash blk) (transactions blk) MiningDifficulty = Inr True"
  proof (cases "i < length c")
    case True
    then have "i - 1 < length c"
      by simp
    then show ?thesis
      using True i assms(2) [unfolded linked_and_proved_def, rule_format, of i] by (simp add: nth_append)
  next
    case False
    then have "i = length c"
      using i by simp
    then show ?thesis
      using assms by (simp add: nth_append last_conv_nth)
  qed
qed

section \<open>Mining keeps the chain linked\<close>

lemma copy_transactions_json:
  "copy_transactions xs = Inr ys \<Longrightarrow> map json_of_Transaction ys = map json_of_Transaction xs"
  by (induction xs arbitrary: ys rule: copy_transactions.induct)
     (auto simp: json_of_Transaction_def split: sum.splits)

lemma ValidProof_json_cong:
  "json_of_transactions txs = json_of_transactions txs' \<Longrightarrow> ValidProof n ph txs D = ValidProof n ph txs' D"
  by (simp add: ValidProof_def Hash_def Block_MarshalJSON_def Block_fields_def)

lemma AddTransaction_chain:
  "AddTransaction V bc sender recipient v pk s = Inr (ok, bc') \<Longrightarrow> chain bc' = chain bc"
  by (auto simp: AddTransaction_def Let_def split: if_splits sum.splits)

lemma Mining_chain:
  assumes m: "Mining V bc now = Some (Inr (ok, bc'))"
    and l: "linked_and_proved (chain bc)"
  shows "linked_and_proved (chain bc')"
proof (cases "slice_len (transactionPool bc) = 0")
  case True
  with m l show ?thesis
    by (simp add: Mining_def)
next
  case False
  define bc1 where
    "bc1 = bc\<lparr>transactionPool := slice_append (transactionPool bc)
                (Some (NewTransaction MiningSender (blockchainAddress bc) MiningReward))\<rparr>"
  have add: "AddTransaction V bc MiningSender (blockchainAddress bc) MiningReward None None = Inr (True, bc1)"
    by (simp add: AddTransaction_def bc1_def Let_def)
  obtain pool where pool: "transactionPool bc1 = Some pool"
    by (cases "transactionPool bc") (simp_all add: bc1_def slice_append_def)
  from m False obtain n lb where
    pow: "ProofOfWork bc1 = Some (Inr n)" and lb: "LastBlock bc1 = Inr lb"
    and bc': "bc' = snd (CreateBlock bc1 now n (Hash lb))"
    by (auto simp: Mining_def add split: option.splits sum.splits)
  from lb have ne: "chain bc \<noteq> []" and last: "lb = last (chain bc)"
    by (auto simp: LastBlock_def bc1_def split: if_splits)
  from pow lb obtain txs where
    copy: "CopyTransactionPool bc1 = Inr txs" and loop: "ProofOfWork_loop (Hash lb) txs 0 = Some (Inr n)"
    by (auto simp: ProofOfWork_def split: sum.splits)
  from copy pool obtain ys where ys: "txs = Some ys" "copy_transactions pool = Inr ys"
    by (auto simp: CopyTransactionPool_def split: sum.splits)
  have "json_of_transactions txs = json_of_transactions (transactionPool bc1)"
    using ys pool copy_transactions_json [of pool ys] by (simp add: json_of_transactions_def)
  then have "ValidProof n (Hash lb) (transactionPool bc1) MiningDifficulty = Inr True"
    using ProofOfWork_loop_valid [OF loop] ValidProof_json_cong by metis
  then show ?thesis
    using l ne last
    by (simp add: bc' CreateBlock_def NewBlock_def Let_def bc1_def linked_and_proved_append)
qed

section \<open>Conflict resolution adopts validated chains only\<close>

lemma ResolveConflicts_loop_valid:
  "ResolveConflicts_loop get ns lc ml = Inr (Some c) \<Longrightarrow> lc = Some c \<or> ValidChain c = Inr True"
proof (induction ns arbitrary: lc ml)
  case Nil
  then show ?case by simp
next
  case (Cons n ns)
  then show ?case
    by (auto simp: ResolveConflicts_loop_Cons split: option.splits if_splits sum.splits)
qed

lemma ResolveConflicts_chain:
  assumes "ResolveConflicts get bc = Inr (ok, bc')" "linked_and_proved (chain bc)"
  shows "linked_and_proved (chain bc')"
proof (cases "ResolveConflicts_loop get (neighbors bc) None (length (chain bc))")
  case (Inl e)
  with assms show ?thesis
    by (simp add: ResolveConflicts_def)
next
  case (Inr r)
  show ?thesis
  proof (cases r)
    case None
    with Inr assms show ?thesis
      by (simp add: ResolveConflicts_def)
  next
    case (Some c)
    then have "ValidChain c = Inr True"
      using Inr ResolveConflicts_loop_valid [of get "neighbors bc" None "length (chain bc)" c] by simp
    then show ?thesis
      using Inr Some assms by (auto simp: ResolveConflicts_def ValidChain_linked)
  qed
qed

section \<open>Conflict resolution picks the longest qualifying chain\<close>

lemma ValidChain_walk_total:
  "None \<notin> set rest \<Longrightarrow> \<exists>ok. ValidChain_walk pre rest = Inr ok"
proof (induction rest arbitrary: pre)
  case Nil
  then show ?case by auto
next
  case (Cons x rest)
  then obtain b where b: "x = Some b"
    by (cases x) auto
  have "\<exists>ok. ValidChain_walk (Some b) rest = Inr ok"
    using Cons by simp
  then show ?case
    using b by (auto simp: ValidProof_difficulty)
qed

lemma ValidChain_total:
  "c \<noteq> [] \<Longrightarrow> None \<notin> set (tl c) \<Longrightarrow> \<exists>ok. ValidChain c = Inr ok"
  by (cases c) (simp_all add: ValidChain_def ValidChain_walk_total)

lemma reported_Cons: "reported get (n # ns) = reported_by get n @ reported get ns"
  by (simp add: reported_def)

lemma qualifies_mono: "l \<le> l' \<Longrightarrow> qualifies l' c \<Longrightarrow> qualifies l c"
  by (simp add: qualifies_def)

lemma ResolveConflicts_loop_spec:
  assumes "\<forall>n\<in>set ns. answers get n"
    and "\<forall>c\<in>set (reported get ns). None \<notin> set (tl c)"
  shows "\<exists>r. ResolveConflicts_loop get ns lc ml = Inr r \<and>
    (if \<exists>c\<in>set (reported get ns). qualifies ml c
     then \<exists>c. r = Some c \<and> c \<in> set (reported get ns) \<and> qualifies ml c
            \<and> (\<forall>c'\<in>set (reported get ns). qualifies ml c' \<longrightarrow> length c' \<le> length c)
     else r = lc)"
  using assms
proof (induction ns arbitrary: lc ml)
  case Nil
  then show ?case
    by (simp add: reported_def)
next
  case (Cons n ns)
  from Cons.prems(1) obtain resp where resp: "get (chain_endpoint n) = Some resp"
    and decoded: "StatusCode resp = 200 \<longrightarrow> \<not> isl (received resp)"
    by (auto simp: answers_def split: option.splits)
  have fetch: "\<forall>n\<in>set ns. answers get n"
    using Cons.prems(1) by simp
  have sub: "set (reported get ns) \<subseteq> set (reported get (n # ns))"
    by (simp add: reported_Cons)
  have nonil: "\<forall>c\<in>set (reported get ns). None \<notin> set (tl c)"
    using Cons.prems(2) sub by blast
  note ih = Cons.IH [OF fetch nonil]
  note loop = ResolveConflicts_loop_Cons [of get n ns lc ml]
  consider (other) "StatusCode resp \<noteq> 200"
    | (skip) c where "StatusCode resp = 200" "received resp = Inr c" "\<not> qualifies ml c"
    | (take) c where "StatusCode resp = 200" "received resp = Inr c" "qualifies ml c"
    using decoded by (cases "received resp") auto
  then show ?case
  proof cases
    case other
    have step: "ResolveConflicts_loop get (n # ns) lc ml = ResolveConflicts_loop get ns lc ml"
      using other by (simp add: loop resp)
    have rep: "reported get (n # ns) = reported get ns"
      using other by (simp add: reported_Cons reported_by_def resp)
    show ?thesis
      using ih [of lc ml] unfolding step rep by simp
  next
    case skip
    have rep: "reported get (n # ns) = c # reported get ns"
      using skip(1,2) by (simp add: reported_Cons reported_by_def resp)
    have step: "ResolveConflicts_loop get (n # ns) lc ml = ResolveConflicts_loop get ns lc ml"
    proof (cases "ml < length c")
      case True
      have "None \<notin> set (tl c)"
        using Cons.prems(2) rep by simp
      moreover have "c \<noteq> []"
        using True by auto
      ultimately obtain ok where ok: "ValidChain c = Inr ok"
        using ValidChain_total by blast
      then have "\<not> ok"
        using skip(3) True by (auto simp: qualifies_def)
      then show ?thesis
        using True ok skip(1,2) by (simp add: loop resp)
    next
      case False
      then show ?thesis
        using skip(1,2) by (simp add: loop resp)
    qed
    have q: "(\<exists>c\<in>set (reported get (n # ns)). qualifies ml c) = (\<exists>c\<in>set (reported get ns). qualifies ml c)"
      using skip(3) by (auto simp: rep)
    have q': "(\<forall>c'\<in>set (reported get (n # ns)). qualifies ml c' \<longrightarrow> length c' \<le> k)
        = (\<forall>c'\<in>set (reported get ns). qualifies ml c' \<longrightarrow> length c' \<le> k)" for k
      using skip(3) by (auto simp: rep)
    show ?thesis
      using ih [of lc ml] sub unfolding step q q' by (auto split: if_splits)
  next
    case take
    have rep: "reported get (n # ns) = c # reported get ns"
      using take(1,2) by (simp add: reported_Cons reported_by_def resp)
    have step: "ResolveConflicts_loop get (n # ns) lc ml = ResolveConflicts_loop get ns (Some c) (length c)"
      using take by (simp add: loop resp qualifies_def)
    from ih [of "Some c" "length c"] obtain r where
      r: "ResolveConflicts_loop get ns (Some c) (length c) = Inr r"
      and spec: "if \<exists>d\<in>set (reported get ns). qualifies (length c) d
         then \<exists>d. r = Some d \<and> d \<in> set (reported get ns) \<and> qualifies (length c) d
            \<and> (\<forall>c'\<in>set (reported get ns). qualifies (length c) c' \<longrightarrow> length c' \<le> length d)
         else r = Some c"
      by blast
    have ml: "ml < length c"
      using take(3) by (simp add: qualifies_def)
    show ?thesis
    proof (cases "\<exists>d\<in>set (reported get ns). qualifies (length c) d")
      case True
      with spec obtain d where d: "r = Some d" "d \<in> set (reported get ns)" "qualifies (length c) d"
        "\<forall>c'\<in>set (reported get ns). qualifies (length c) c' \<longrightarrow> length c' \<le> length d"
        by auto
      have lc: "length c < length d"
        using d(3) by (simp add: qualifies_def)
      have qd: "qualifies ml d"
        using d(3) ml by (simp add: qualifies_def)
      have best: "length c' \<le> length d" if "c' \<in> set (reported get (n # ns))" "qualifies ml c'" for c'
      proof (cases "c' = c")
        case True
        then show ?thesis using lc by simp
      next
        case False
        then have in_ns: "c' \<in> set (reported get ns)"
          using that(1) rep by simp
        show ?thesis
        proof (cases "length c < length c'")
          case True
          then have "qualifies (length c) c'"
            using that(2) by (simp add: qualifies_def)
          then show ?thesis
            using d(4) in_ns by blast
        next
          case False
          then show ?thesis using lc by simp
        qed
      qed
      show ?thesis
        using r d(1,2) qd best take(3) unfolding step rep by auto
    next
      case False
      with spec have rc: "r = Some c"
        by simp
      have best: "length c' \<le> length c" if "c' \<in> set (reported get (n # ns))" "qualifies ml c'" for c'
      proof (cases "c' = c")
        case True
        then show ?thesis by simp
      next
        case neq: False
        then have in_ns: "c' \<in> set (reported get ns)"
          using that(1) rep by simp
        then have "\<not> qualifies (length c) c'"
          using False by blast
        then show ?thesis
          using that(2) by (auto simp: qualifies_def)
      qed
      show ?thesis
        using r rc best take(3) unfolding step rep by auto
    qed
  qed
qed

section \<open>Lemmas: decoding a block\<close>

lemma fold_tags:
  "fold_key ''timestamp'' = ''timestamp''" "fold_key ''nonce'' = ''nonce''"
  "fold_key ''previous_hash'' = ''previous_hash''" "fold_key ''transactions'' = ''transactions''"
  by (simp_all add: ascii_lower_def)

lemma decode_member_previousHash:
  assumes "decode_member dec_txs k v st = Some st'"
  shows "d_previousHash st' =
    (if key_matches ''previous_hash'' k then (case v of JString s \<Rightarrow> Some s | _ \<Rightarrow> None)
     else d_previousHash st)"
  using assms
  by (auto simp: decode_member_def key_matches_def fold_tags split: json.splits if_splits option.splits)

lemma member_values_Cons:
  "member_values tag (kv # r) =
    (if key_matches tag (fst kv) then snd kv # member_values tag r else member_values tag r)"
  by (simp add: member_values_def)

lemma decode_members_previousHash:
  assumes "decode_members dec_txs kvs st = Some st'"
  shows "d_previousHash st' =
    (case member_values ''previous_hash'' kvs of
       [] \<Rightarrow> d_previousHash st
     | v # vs \<Rightarrow> (case last (v # vs) of JString s \<Rightarrow> Some s | _ \<Rightarrow> None))"
  using assms
proof (induction kvs arbitrary: st)
  case Nil
  then show ?case
    by (simp add: member_values_def)
next
  case (Cons kv r)
  from Cons.prems obtain st1 where
    st1: "decode_member dec_txs (fst kv) (snd kv) st = Some st1" and rest: "decode_members dec_txs r st1 = Some st'"
    by (auto split: option.splits)
  note ih = Cons.IH [OF rest]
  note one = decode_member_previousHash [OF st1]
  show ?case
  proof (cases "key_matches ''previous_hash'' (fst kv)")
    case True
    then show ?thesis
      using ih one by (cases "member_values ''previous_hash'' r") (simp_all add: member_values_Cons)
  next
    case False
    then show ?thesis
      using ih one by (cases "member_values ''previous_hash'' r") (simp_all add: member_values_Cons)
  qed
qed

lemma length_hexval: "hexval c = Some bs \<Longrightarrow> length bs = 4"
  by (auto simp: hexval_def hextable_def split: if_splits)

lemma length_hex_pairs: "length (hex_pairs s) \<le> length s div 2"
proof (induction s rule: hex_pairs.induct)
  case (1 p q r)
  show ?case
  proof (cases "hexval p")
    case None
    then show ?thesis by simp
  next
    case hi: (Some hi)
    show ?thesis
    proof (cases "hexval q")
      case None
      then show ?thesis using hi by simp
    next
      case lo: (Some lo)
      have "length (bytes_of_bits (lo @ hi)) = 1"
        using length_hexval [OF hi] length_hexval [OF lo] by (simp add: length_bytes_of_bits)
      then show ?thesis
        using hi lo "1.IH" by simp
    qed
  qed
qed simp_all

lemma length_hex_DecodeString_buffer: "length (hex_DecodeString_buffer s) = length s div 2"
  using length_hex_pairs [of s] by (simp add: hex_DecodeString_buffer_def Let_def)

lemma Block_UnmarshalJSON_short:
  assumes "decode_members dec_txs kvs (decoder_init b0) \<noteq> None"
    and "member_values ''previous_hash'' kvs = []
         \<or> (\<exists>s. last (member_values ''previous_hash'' kvs) = JString s \<and> length s < 64)"
  shows "Block_UnmarshalJSON dec_txs b0 (JObject kvs) = Inl SliceBoundsOutOfRange"
proof -
  from assms(1) obtain st where st: "decode_members dec_txs kvs (decoder_init b0) = Some st"
    by auto
  have "\<exists>s. d_previousHash st = Some s \<and> length s < 64"
  proof (cases "member_values ''previous_hash'' kvs")
    case Nil
    then show ?thesis
      using decode_members_previousHash [OF st] by (simp add: decoder_init_def)
  next
    case (Cons v vs)
    then obtain s where "last (v # vs) = JString s" "length s < 64"
      using assms(2) by auto
    then show ?thesis
      using decode_members_previousHash [OF st] Cons by simp
  qed
  then obtain s where s: "d_previousHash st = Some s" "length s < 64"
    by blast
  then have "length (hex_DecodeString_buffer s) < 32"
    by (simp add: length_hex_DecodeString_buffer)
  then show ?thesis
    using st s by (simp add: Block_UnmarshalJSON_def Let_def)
qed

lemma Block_fields_no_previous_hash:
  "member_values ''previous_hash'' (Block_fields b) = []"
  by (simp add: member_values_def Block_fields_def key_matches_def ascii_lower_def)

lemma Block_UnmarshalJSON_Block_fields:
  "Block_UnmarshalJSON dec_txs b0 (JObject (Block_fields b)) = Inl SliceBoundsOutOfRange
   \<or> Block_UnmarshalJSON dec_txs b0 (JObject (Block_fields b)) = Inr (Inl JsonError)"
proof (cases "decode_members dec_txs (Block_fields b) (decoder_init b0)")
  case None
  then show ?thesis
    by (simp add: Block_UnmarshalJSON_def)
next
  case (Some st)
  then have "Block_UnmarshalJSON dec_txs b0 (JObject (Block_fields b)) = Inl SliceBoundsOutOfRange"
    by (intro Block_UnmarshalJSON_short) (simp_all add: Block_fields_no_previous_hash)
  then show ?thesis ..
qed

section \<open>Lemmas: decoding bodies\<close>

lemma hexval_hexdigit: "hexval (hexdigit [a, b, c, d]) = Some [a, b, c, d]"
  by (cases a; cases b; cases c; cases d) (simp_all add: hexval_def hexdigit_def hextable_def)

lemma hex_pairs_hex: "hex_pairs (hex bs) = bs"
proof (induction bs)
  case Nil
  then show ?case by (simp add: hex_def)
next
  case (Cons c bs)
  obtain b0 b1 b2 b3 b4 b5 b6 b7 where c: "c = Char b0 b1 b2 b3 b4 b5 b6 b7"
    by (cases c)
  have "hex (c # bs) = hexdigit [b4, b5, b6, b7] # hexdigit [b0, b1, b2, b3] # hex bs"
    by (simp add: hex_def c)
  then show ?case
    using Cons by (simp add: hexval_hexdigit c)
qed

lemma hex_DecodeString_buffer_hex: "hex_DecodeString_buffer (hex bs) = bs"
  by (simp add: hex_DecodeString_buffer_def hex_pairs_hex length_hex)

lemma bitlen_1: "bitlen (Suc 0) = 1"
  by (simp add: bitlen.simps [of "Suc 0"] bitlen.simps [of 0])

lemma float32_of_int_1: "float32_of_int 1 = Some MiningReward"
  by (simp add: float32_of_int_def MiningReward_def bitlen_1 Let_def)

lemma in_int64_sint: "in_int64 (sint (w :: 64 word))"
  using sint_ge [of w] sint_lt [of w] by (simp add: in_int64_def)

lemma decode_elements_Cons:
  "e \<noteq> JNull \<Longrightarrow> decode_elements dec zero cur (e # es) =
      (case dec (case cur of Some x # _ \<Rightarrow> x | _ \<Rightarrow> zero) e of
         Inl p \<Rightarrow> Inl p
       | Inr (err, x) \<Rightarrow>
           if err then Inr (True, Some x # tl cur)
           else (case decode_elements dec zero (tl cur) es of
                   Inl p \<Rightarrow> Inl p
                 | Inr (stopped, r) \<Rightarrow> Inr (stopped, Some x # r)))"
  by (cases e) simp_all

lemma Transaction_UnmarshalJSON_body:
  "Transaction_UnmarshalJSON zero_Transaction (body_transaction r)
    = (False, NewTransaction MiningSender r MiningReward)"
  by (simp add: Transaction_UnmarshalJSON_def body_transaction_def Transaction_member_def
      key_matches_def ascii_lower_def float32_of_int_1 zero_Transaction_def NewTransaction_def
      MiningSender_def)

lemma body_transaction_not_null: "body_transaction r \<noteq> JNull"
  by (simp add: body_transaction_def)

lemma decode_body_transactions:
  "decode_elements (\<lambda>t e. Inr (Transaction_UnmarshalJSON t e)) zero_Transaction []
      [body_transaction ''alice'', body_transaction ''miner'']
    = Inr (False, [Some tx1, Some reward])"
  by (simp add: decode_elements_Cons body_transaction_not_null Transaction_UnmarshalJSON_body
      tx1_def reward_def)

lemma Block_UnmarshalJSON_receiver_body_null:
  assumes "length (previousHash b) = 32" "transactions b = None"
  shows "Block_UnmarshalJSON_receiver zero_Block (body_block b JNull) = Inr (False, b)"
  using assms
  by (simp add: Block_UnmarshalJSON_receiver_def body_block_def Block_member_def key_matches_def
      ascii_lower_def in_int64_sint zero_Block_def hex_DecodeString_buffer_hex)

lemma Block_UnmarshalJSON_receiver_body:
  assumes "length (previousHash b) = 32" "transactions b = Some [Some tx1, Some reward]"
  shows "Block_UnmarshalJSON_receiver zero_Block (body_block b body_transactions) = Inr (False, b)"
  using assms
  by (simp add: Block_UnmarshalJSON_receiver_def body_block_def Block_member_def key_matches_def
      ascii_lower_def in_int64_sint zero_Block_def hex_DecodeString_buffer_hex
      body_transactions_def slice_elements_def decode_body_transactions)

lemma body_block_not_null: "body_block b txs \<noteq> JNull"
  by (simp add: body_block_def)

lemma received_body4: "received \<lparr>StatusCode = 200, Body = Some body4\<rparr> = Inr chain4"
proof -
  have g: "Block_UnmarshalJSON_receiver zero_Block (body_block genesis JNull) = Inr (False, genesis)"
    by (rule Block_UnmarshalJSON_receiver_body_null) (simp_all add: genesis_def length_Hash)
  have b1: "Block_UnmarshalJSON_receiver zero_Block (body_block block1 body_transactions) = Inr (False, block1)"
    by (rule Block_UnmarshalJSON_receiver_body) (simp_all add: block1_def length_Hash)
  have b2: "Block_UnmarshalJSON_receiver zero_Block (body_block block2 body_transactions) = Inr (False, block2)"
    by (rule Block_UnmarshalJSON_receiver_body) (simp_all add: block2_def length_Hash)
  have b3: "Block_UnmarshalJSON_receiver zero_Block (body_block block3 body_transactions) = Inr (False, block3)"
    by (rule Block_UnmarshalJSON_receiver_body) (simp_all add: block3_def length_Hash)
  have "decode_elements Block_UnmarshalJSON_receiver zero_Block []
      [body_block genesis JNull, body_block block1 body_transactions,
       body_block block2 body_transactions, body_block block3 body_transactions]
    = Inr (False, chain4)"
    by (simp add: decode_elements_Cons body_block_not_null g b1 b2 b3 chain4_def)
  then show ?thesis
    by (simp add: received_def Decode_def Blockchain_UnmarshalJSON_def Blockchain_member_def
        body4_def key_matches_def ascii_lower_def zero_Blockchain_def)
qed

lemma received_body5: "received \<lparr>StatusCode = 200, Body = Some body5\<rparr> = Inr chain5"
proof -
  have g: "Block_UnmarshalJSON_receiver zero_Block (body_block genesis JNull) = Inr (False, genesis)"
    by (rule Block_UnmarshalJSON_receiver_body_null) (simp_all add: genesis_def length_Hash)
  have f: "Block_UnmarshalJSON_receiver zero_Block (body_block forged body_transactions) = Inr (False, forged)"
    by (rule Block_UnmarshalJSON_receiver_body) (simp_all add: forged_def block1_def)
  have "decode_elements Block_UnmarshalJSON_receiver zero_Block []
      [body_block genesis JNull, body_block forged body_transactions,
       body_block forged body_transactions, body_block forged body_transactions,
       body_block forged body_transactions]
    = Inr (False, chain5)"
    by (simp add: decode_elements_Cons body_block_not_null g f chain5_def)
  then show ?thesis
    by (simp add: received_def Decode_def Blockchain_UnmarshalJSON_def Blockchain_member_def
        body5_def key_matches_def ascii_lower_def zero_Blockchain_def)
qed

text \<open>
  A body with the blocks under the key \<^verbatim>\<open>chains\<close>, the key that \<^verbatim>\<open>Blockchain.MarshalJSON\<close>
  writes, leaves the chain empty, so that a neighbour sending it is never followed.  A block
  as \<^verbatim>\<open>Block.MarshalJSON\<close> writes it, with its previous hash under \<^verbatim>\<open>previous-hash\<close>, makes
  the decoding panic.
\<close>

lemma received_chains_key:
  "received \<lparr>StatusCode = s, Body = Some (JObject [(''chains'', v)])\<rparr> = Inr []"
  by (simp add: received_def Decode_def Blockchain_UnmarshalJSON_def Blockchain_member_def
      key_matches_def ascii_lower_def zero_Blockchain_def)

lemma Transaction_UnmarshalJSON_empty: "Transaction_UnmarshalJSON t (JObject []) = (False, t)"
  by (simp add: Transaction_UnmarshalJSON_def)

lemma decode_elements_marshalled:
  "\<exists>r. decode_elements (\<lambda>t e. Inr (Transaction_UnmarshalJSON t e)) z cur (map json_of_Transaction ts)
    = Inr (False, r)"
proof (induction ts arbitrary: cur)
  case Nil
  then show ?case by simp
next
  case (Cons a ts)
  from Cons [of "tl cur"] obtain r where
    r: "decode_elements (\<lambda>t e. Inr (Transaction_UnmarshalJSON t e)) z (tl cur) (map json_of_Transaction ts)
      = Inr (False, r)"
    by blast
  show ?case
  proof (cases a)
    case None
    then have "json_of_Transaction a = JNull"
      by (simp add: json_of_Transaction_def)
    then show ?thesis
      using r by simp
  next
    case (Some t)
    then have "json_of_Transaction a = JObject []"
      by (simp add: json_of_Transaction_def)
    then show ?thesis
      using r by (simp add: Transaction_UnmarshalJSON_empty)
  qed
qed

lemma Block_UnmarshalJSON_receiver_Block_fields:
  "Block_UnmarshalJSON_receiver b0 (JObject (Block_fields b)) = Inl SliceBoundsOutOfRange"
proof (cases "transactions b")
  case None
  then show ?thesis
    by (simp add: Block_UnmarshalJSON_receiver_def Block_fields_def Block_member_def
        key_matches_def ascii_lower_def in_int64_sint json_of_transactions_def
        hex_DecodeString_buffer_def)
next
  case (Some ts)
  obtain r where
    "decode_elements (\<lambda>t e. Inr (Transaction_UnmarshalJSON t e)) zero_Transaction
        (slice_elements (transactions b0)) (map json_of_Transaction ts) = Inr (False, r)"
    using decode_elements_marshalled by blast
  then show ?thesis
    using Some
    by (simp add: Block_UnmarshalJSON_receiver_def Block_fields_def Block_member_def
        key_matches_def ascii_lower_def in_int64_sint json_of_transactions_def
        hex_DecodeString_buffer_def)
qed

lemma received_marshalled_block:
  "received \<lparr>StatusCode = s, Body = Some (JObject [(''chain'', JArray (JObject (Block_fields b) # rest))])\<rparr>
    = Inl SliceBoundsOutOfRange"
  by (simp add: received_def Decode_def Blockchain_UnmarshalJSON_def Blockchain_member_def
      key_matches_def ascii_lower_def zero_Blockchain_def Block_UnmarshalJSON_receiver_Block_fields)

lemma ResolveConflicts_loop_chains_key:
  assumes "\<forall>n\<in>set ns. \<exists>v. get (chain_endpoint n)
      = Some \<lparr>StatusCode = 200, Body = Some (JObject [(''chains'', v)])\<rparr>"
  shows "ResolveConflicts_loop get ns lc ml = Inr lc"
  using assms
proof (induction ns)
  case Nil
  then show ?case by simp
next
  case (Cons n ns)
  then obtain v where
    "get (chain_endpoint n) = Some \<lparr>StatusCode = 200, Body = Some (JObject [(''chains'', v)])\<rparr>"
    by auto
  then show ?case
    using Cons by (simp add: ResolveConflicts_loop_Cons received_chains_key)
qed

lemma ResolveConflicts_chains_key:
  assumes "\<forall>n\<in>set (neighbors bc). \<exists>v. get (chain_endpoint n)
      = Some \<lparr>StatusCode = 200, Body = Some (JObject [(''chains'', v)])\<rparr>"
  shows "ResolveConflicts get bc = Inr (False, bc)"
  by (simp add: ResolveConflicts_def ResolveConflicts_loop_chains_key [OF assms])

section \<open>Hashes of the blocks of the run\<close>

lemmas encoding_simps = Block_MarshalJSON_def Block_fields_def FormatInt_def digits10.simps digit_char_def
  json_of_transactions_def json_of_Transaction_def

lemma hex_zeros:
  "hex (replicate 32 (CHR 0x00)) = ''0000000000000000000000000000000000000000000000000000000000000000''"
  by (simp add: hex_def hexdigit_def hextable_def eval_nat_numeral)

lemma hash_zero_Block:
  "hex (Hash (Some zero_Block)) = ''65bf7a51fad9b27c38c175f645c4978e7dc5840293b9102f987ef46c70a0855f''"
proof -
  have h: "Hash (Some zero_Block) = sha256 (Block_MarshalJSON zero_Block)"
    by (simp add: Hash_def)
  have j: \<open>Block_MarshalJSON zero_Block = ''{"timestamp":0,"nonce":0,"previous-hash":"0000000000000000000000000000000000000000000000000000000000000000","transactions":null}''\<close>
    by (simp add: encoding_simps zero_Block_def hex_zeros)
  have s: \<open>hex (sha256 ''{"timestamp":0,"nonce":0,"previous-hash":"0000000000000000000000000000000000000000000000000000000000000000","transactions":null}'') = ''65bf7a51fad9b27c38c175f645c4978e7dc5840293b9102f987ef46c70a0855f''\<close>
    by code_simp
  show ?thesis
    by (simp only: h j s)
qed

lemma hash_genesis:
  "hex (Hash (Some genesis)) = ''045f97fc466777a114e963753829f265b0862e9275c7738f6d1a5733734d622d''"
proof -
  have h: "Hash (Some genesis) = sha256 (Block_MarshalJSON genesis)"
    by (simp add: Hash_def)
  have j: \<open>Block_MarshalJSON genesis = ''{"timestamp":1700000000000004580,"nonce":0,"previous-hash":"65bf7a51fad9b27c38c175f645c4978e7dc5840293b9102f987ef46c70a0855f","transactions":null}''\<close>
    by (simp add: encoding_simps genesis_def hash_zero_Block)
  have s: \<open>hex (sha256 ''{"timestamp":1700000000000004580,"nonce":0,"previous-hash":"65bf7a51fad9b27c38c175f645c4978e7dc5840293b9102f987ef46c70a0855f","transactions":null}'') = ''045f97fc466777a114e963753829f265b0862e9275c7738f6d1a5733734d622d''\<close>
    by code_simp
  show ?thesis
    by (simp only: h j s)
qed

lemma hash_candidate1:
  "hex (Hash (Some \<lparr>timestamp = 0, nonce = 0, previousHash = Hash (Some genesis), transactions = Some [Some tx1, Some reward]\<rparr>)) = ''000a95d177f8e26acdb3cf34e391980d7c46f1472b558afa7f7cf24a5ceb0312''"
proof -
  have h: "Hash (Some (\<lparr>timestamp = 0, nonce = 0, previousHash = Hash (Some genesis), transactions = Some [Some tx1, Some reward]\<rparr>)) = sha256 (Block_MarshalJSON (\<lparr>timestamp = 0, nonce = 0, previousHash = Hash (Some genesis), transactions = Some [Some tx1, Some reward]\<rparr>))"
    by (simp add: Hash_def)
  have j: \<open>Block_MarshalJSON \<lparr>timestamp = 0, nonce = 0, previousHash = Hash (Some genesis), transactions = Some [Some tx1, Some reward]\<rparr> = ''{"timestamp":0,"nonce":0,"previous-hash":"045f97fc466777a114e963753829f265b0862e9275c7738f6d1a5733734d622d","transactions":[{},{}]}''\<close>
    by (simp add: encoding_simps hash_genesis)
  have s: \<open>hex (sha256 ''{"timestamp":0,"nonce":0,"previous-hash":"045f97fc466777a114e963753829f265b0862e9275c7738f6d1a5733734d622d","transactions":[{},{}]}'') = ''000a95d177f8e26acdb3cf34e391980d7c46f1472b558afa7f7cf24a5ceb0312''\<close>
    by code_simp
  show ?thesis
    by (simp only: h j s)
qed

lemma hash_block1:
  "hex (Hash (Some block1)) = ''bf46220d829bb3e2fd686768b4eec32d33e176c6af117451afa3293d97405c61''"
proof -
  have h: "Hash (Some block1) = sha256 (Block_MarshalJSON block1)"
    by (simp add: Hash_def)
  have j: \<open>Block_MarshalJSON block1 = ''{"timestamp":1700000020000004580,"nonce":0,"previous-hash":"045f97fc466777a114e963753829f265b0862e9275c7738f6d1a5733734d622d","transactions":[{},{}]}''\<close>
    by (simp add: encoding_simps block1_def hash_genesis)
  have s: \<open>hex (sha256 ''{"timestamp":1700000020000004580,"nonce":0,"previous-hash":"045f97fc466777a114e963753829f265b0862e9275c7738f6d1a5733734d622d","transactions":[{},{}]}'') = ''bf46220d829bb3e2fd686768b4eec32d33e176c6af117451afa3293d97405c61''\<close>
    by code_simp
  show ?thesis
    by (simp only: h j s)
qed

lemma hash_candidate2:
  "hex (Hash (Some \<lparr>timestamp = 0, nonce = 2150, previousHash = Hash (Some block1), transactions = Some [Some tx1, Some reward]\<rparr>)) = ''000e4ce64b1b3393892f6d276744d27d0312f657fc09fc9649f0153f164c7d74''"
proof -
  have h: "Hash (Some (\<lparr>timestamp = 0, nonce = 2150, previousHash = Hash (Some block1), transactions = Some [Some tx1, Some reward]\<rparr>)) = sha256 (Block_MarshalJSON (\<lparr>timestamp = 0, nonce = 2150, previousHash = Hash (Some block1), transactions = Some [Some tx1, Some reward]\<rparr>))"
    by (simp add: Hash_def)
  have j: \<open>Block_MarshalJSON \<lparr>timestamp = 0, nonce = 2150, previousHash = Hash (Some block1), transactions = Some [Some tx1, Some reward]\<rparr> = ''{"timestamp":0,"nonce":2150,"previous-hash":"bf46220d829bb3e2fd686768b4eec32d33e176c6af117451afa3293d97405c61","transactions":[{},{}]}''\<close>
    by (simp add: encoding_simps hash_block1)
  have s: \<open>hex (sha256 ''{"timestamp":0,"nonce":2150,"previous-hash":"bf46220d829bb3e2fd686768b4eec32d33e176c6af117451afa3293d97405c61","transactions":[{},{}]}'') = ''000e4ce64b1b3393892f6d276744d27d0312f657fc09fc9649f0153f164c7d74''\<close>
    by code_simp
  show ?thesis
    by (simp only: h j s)
qed

lemma hash_block2:
  "hex (Hash (Some block2)) = ''70af36c2d41fde43122edb5397892a9e223c38aac6aa6239d9cf94f7b25323be''"
proof -
  have h: "Hash (Some block2) = sha256 (Block_MarshalJSON block2)"
    by (simp add: Hash_def)
  have j: \<open>Block_MarshalJSON block2 = ''{"timestamp":1700000040000004580,"nonce":2150,"previous-hash":"bf46220d829bb3e2fd686768b4eec32d33e176c6af117451afa3293d97405c61","transactions":[{},{}]}''\<close>
    by (simp add: encoding_simps block2_def hash_block1)
  have s: \<open>hex (sha256 ''{"timestamp":1700000040000004580,"nonce":2150,"previous-hash":"bf46220d829bb3e2fd686768b4eec32d33e176c6af117451afa3293d97405c61","transactions":[{},{}]}'') = ''70af36c2d41fde43122edb5397892a9e223c38aac6aa6239d9cf94f7b25323be''\<close>
    by code_simp
  show ?thesis
    by (simp only: h j s)
qed

lemma hash_candidate3:
  "hex (Hash (Some \<lparr>timestamp = 0, nonce = 362, previousHash = Hash (Some block2), transactions = Some [Some tx1, Some reward]\<rparr>)) = ''000f9cc64c0d4961aa6aad5059f80660636b31b3ea733b257130d3f746475dee''"
proof -
  have h: "Hash (Some (\<lparr>timestamp = 0, nonce = 362, previousHash = Hash (Some block2), transactions = Some [Some tx1, Some reward]\<rparr>)) = sha256 (Block_MarshalJSON (\<lparr>timestamp = 0, nonce = 362, previousHash = Hash (Some block2), transactions = Some [Some tx1, Some reward]\<rparr>))"
    by (simp add: Hash_def)
  have j: \<open>Block_MarshalJSON \<lparr>timestamp = 0, nonce = 362, previousHash = Hash (Some block2), transactions = Some [Some tx1, Some reward]\<rparr> = ''{"timestamp":0,"nonce":362,"previous-hash":"70af36c2d41fde43122edb5397892a9e223c38aac6aa6239d9cf94f7b25323be","transactions":[{},{}]}''\<close>
    by (simp add: encoding_simps hash_block2)
  have s: \<open>hex (sha256 ''{"timestamp":0,"nonce":362,"previous-hash":"70af36c2d41fde43122edb5397892a9e223c38aac6aa6239d9cf94f7b25323be","transactions":[{},{}]}'') = ''000f9cc64c0d4961aa6aad5059f80660636b31b3ea733b257130d3f746475dee''\<close>
    by code_simp
  show ?thesis
    by (simp only: h j s)
qed

section \<open>Facts about the run\<close>

lemma node0_eq:
  "node0 = \<lparr>transactionPool = Some [], chain = [Some genesis], blockchainAddress = ''miner'',
            port = 5000, neighbors = []\<rparr>"
  by (simp add: node0_def NewBlockchain_def CreateBlock_def NewBlock_def zero_Blockchain_def genesis_def Let_def)

lemma add_node0:
  "AddTransaction V node0 MiningSender ''alice'' MiningReward None None = Inr (True, node1)"
  by (simp add: AddTransaction_def node1_def node0_eq slice_append_def tx1_def Let_def)

lemma add_reward_node1:
  "AddTransaction V node1 MiningSender (blockchainAddress node1) MiningReward None None = Inr (True, node1r)"
  by (simp add: AddTransaction_def node1r_def node1_def node0_eq slice_append_def reward_def Let_def)

lemma copy_node1r:
  "CopyTransactionPool node1r = Inr (Some [Some tx1, Some reward])"
  by (simp add: CopyTransactionPool_def node1r_def tx1_def reward_def NewTransaction_def)

lemma last_node1r:
  "LastBlock node1r = Inr (Some genesis)"
  by (simp add: LastBlock_def node1r_def node1_def node0_eq)

lemma valid_block1:
  "ValidProof 0 (Hash (Some genesis)) (Some [Some tx1, Some reward]) MiningDifficulty = Inr True"
  by (simp add: ValidProof_difficulty hash_candidate1)

lemma valid_block2:
  "ValidProof 2150 (Hash (Some block1)) (Some [Some tx1, Some reward]) MiningDifficulty = Inr True"
  by (simp add: ValidProof_difficulty hash_candidate2)

lemma valid_block3:
  "ValidProof 362 (Hash (Some block2)) (Some [Some tx1, Some reward]) MiningDifficulty = Inr True"
  by (simp add: ValidProof_difficulty hash_candidate3)

lemma pow_node1r:
  "ProofOfWork node1r = Some (Inr 0)"
  by (simp add: ProofOfWork_def copy_node1r last_node1r) (subst ProofOfWork_loop.simps, simp add: valid_block1)

lemma mining_node1:
  "Mining V node1 1700000020000004580 = Some (Inr (True, node2))"
proof -
  have p: "slice_len (transactionPool node1) \<noteq> 0"
    by (simp add: node1_def slice_len_def)
  have c: "snd (CreateBlock node1r 1700000020000004580 0 (Hash (Some genesis))) = node2"
    by (simp add: CreateBlock_def NewBlock_def node2_def node1r_def node1_def node0_eq block1_def Let_def)
  show ?thesis
    using p by (simp add: Mining_def add_reward_node1 pow_node1r last_node1r c)
qed

lemma reachable_node2:
  "reachable no_verifier node2"
proof -
  have "reachable no_verifier node0"
    unfolding node0_def by (rule reachable.created)
  then have "reachable no_verifier node1"
    using add_node0 by (rule reachable.added)
  then show ?thesis
    using mining_node1 by (rule reachable.mined)
qed

lemma hash_genesis_not_zeros:
  "replicate 32 (CHR 0x00) \<noteq> Hash (Some genesis)"
proof
  assume "replicate 32 (CHR 0x00) = Hash (Some genesis)"
  then have "hex (replicate 32 (CHR 0x00)) = hex (Hash (Some genesis))"
    by simp
  then show False
    by (simp add: hex_zeros hash_genesis)
qed

lemma block1_fields:
  "nonce block1 = 0" "previousHash block1 = Hash (Some genesis)"
  "transactions block1 = Some [Some tx1, Some reward]"
  by (simp_all add: block1_def)

lemma block2_fields:
  "nonce block2 = 2150" "previousHash block2 = Hash (Some block1)"
  "transactions block2 = Some [Some tx1, Some reward]"
  by (simp_all add: block2_def)

lemma block3_fields:
  "nonce block3 = 362" "previousHash block3 = Hash (Some block2)"
  "transactions block3 = Some [Some tx1, Some reward]"
  by (simp_all add: block3_def)

lemma ValidChain_chain4:
  "ValidChain chain4 = Inr True"
  by (simp add: ValidChain_def chain4_def block1_fields block2_fields block3_fields
        valid_block1 valid_block2 valid_block3)

lemma ValidChain_chain5:
  "ValidChain chain5 = Inr False"
  by (simp add: ValidChain_def chain5_def forged_def hash_genesis_not_zeros)

lemma reported_node3:
  "reported neighbours_get (neighbors node3) = [chain5, chain4]"
  by (simp add: reported_def reported_by_def node3_def neighbours_get_def chain_endpoint_def
      received_body4 received_body5)

section \<open>Claims about the chain\<close>

text \<open>
  C2.  The claim is that in every reachable chain each block after the first carries the
  hash of its predecessor and has itself a hash, timestamp included, with at least
  \<open>MiningDifficulty\<close> leading zeros.  The first half holds.  The proof of work, in the
  search and in the validation alike, is computed on the block with its timestamp set to 0,
  so the hash of the block as stored need not start with zeros: the chain of \<open>node2\<close>, mined
  by this code, is reachable and its second block has a hash that starts with \<open>bf4\<close>.
\<close>

theorem reachable_chain_hash_zeros_counterexample:
  "reachable no_verifier node2 \<and> \<not> linked_and_hash_zeros (chain node2)"
proof -
  have "\<not> starts_with_zeros MiningDifficulty (hex (Hash (chain node2 ! 1)))"
    by (simp add: node2_def hash_block1 starts_with_zeros_def MiningDifficulty_def eval_nat_numeral)
  moreover have "0 < (1 :: nat) \<and> 1 < length (chain node2)"
    by (simp add: node2_def)
  ultimately have "\<not> linked_and_hash_zeros (chain node2)"
    unfolding linked_and_hash_zeros_def by blast
  then show ?thesis
    using reachable_node2 by simp
qed

text \<open>
  C2, amended.  In every reachable chain each block after the first carries the hash of
  its predecessor, and its nonce passes \<open>ValidProof\<close> at the mining difficulty: the hash of
  the block with its timestamp replaced by 0 starts with \<open>MiningDifficulty\<close> zeros.
\<close>

theorem reachable_chain_linked_and_proved:
  "reachable V bc \<Longrightarrow> linked_and_proved (chain bc)"
proof (induction rule: reachable.induct)
  case (created addr p now)
  show ?case
    by (simp add: NewBlockchain_def CreateBlock_def zero_Blockchain_def Let_def linked_and_proved_single)
next
  case (added bc sender recipient v pk s ok bc')
  then show ?case
    by (simp add: AddTransaction_chain)
next
  case (cleared bc)
  then show ?case
    by (simp add: ClearTransactionPool_def)
next
  case (neighbors_set bc ns)
  then show ?case by simp
next
  case (mined bc now ok bc')
  then show ?case
    by (simp add: Mining_chain)
next
  case (resolved bc get ok bc')
  then show ?case
    by (simp add: ResolveConflicts_chain)
qed

theorem reachable_chain_linked_and_proved_witness:
  "reachable no_verifier node2
   \<and> 0 < (1 :: nat) \<and> 1 < length (chain node2)
   \<and> (\<exists>b. chain node2 ! 1 = Some b \<and> previousHash b = Hash (chain node2 ! (1 - 1))
          \<and> ValidProof (nonce b) (previousHash b) (transactions b) MiningDifficulty = Inr True)"
proof -
  have i: "0 < (1 :: nat) \<and> 1 < length (chain node2)"
    by (simp add: node2_def)
  have "linked_and_proved (chain node2)"
    using reachable_node2 by (rule reachable_chain_linked_and_proved)
  then have "\<exists>b. chain node2 ! 1 = Some b \<and> previousHash b = Hash (chain node2 ! (1 - 1))
          \<and> ValidProof (nonce b) (previousHash b) (transactions b) MiningDifficulty = Inr True"
    unfolding linked_and_proved_def using i by blast
  then show ?thesis
    using reachable_node2 i by blast
qed

section \<open>Claims about chain validation\<close>

text \<open>
  C9.  \<open>ValidChain\<close> reads element 0 of the candidate before the walk: on the empty sequence it
  panics with an index out of range, so it returns a boolean only for non-empty sequences.
\<close>

theorem ValidChain_empty_panics:
  "ValidChain [] = Inl IndexOutOfRange \<and> ((\<exists>ok. ValidChain c = Inr ok) \<longrightarrow> c \<noteq> [])"
  by (auto simp: ValidChain_def)

theorem ValidChain_empty_panics_witness:
  "(\<exists>ok. ValidChain [Some zero_Block] = Inr ok) \<and> [Some zero_Block] \<noteq> []
    \<and> ValidChain [] = Inl IndexOutOfRange"
  using ValidChain_empty_panics [of "[Some zero_Block]"] by (auto simp: ValidChain_def)

text \<open>
  C5.  \<open>ResolveConflicts\<close> reads the chain of a neighbour from the body of its response.
  When every neighbour answers (the fetch gives a response and the decoding of a body with
  status 200 does not panic) and no chain so received contains a \<^verbatim>\<open>nil\<close> block after its
  first, \<open>ResolveConflicts\<close> returns; it returns true exactly when some chain received with
  status 200 is strictly longer than the local chain and passes \<open>ValidChain\<close>; it then
  replaces the local chain, and nothing else, by such a chain of the greatest length; it
  returns false and leaves the node as it is otherwise, in particular when no received
  chain is longer than the local one.  With a local chain of three blocks, a neighbour whose
  body holds an invalid chain of five and one whose body holds a valid chain of four, the
  chain of four is adopted: this is the witness.
\<close>

theorem ResolveConflicts_longest_valid:
  assumes "\<forall>n\<in>set (neighbors bc). answers get n"
    and "\<forall>c\<in>set (reported get (neighbors bc)). None \<notin> set (tl c)"
  shows "\<exists>ok bc'. ResolveConflicts get bc = Inr (ok, bc')
    \<and> (ok \<longleftrightarrow> (\<exists>c\<in>set (reported get (neighbors bc)). qualifies (length (chain bc)) c))
    \<and> (\<not> ok \<longrightarrow> bc' = bc)
    \<and> (ok \<longrightarrow> bc' = bc\<lparr>chain := chain bc'\<rparr>
          \<and> chain bc' \<in> set (reported get (neighbors bc))
          \<and> qualifies (length (chain bc)) (chain bc')
          \<and> (\<forall>c\<in>set (reported get (neighbors bc)).
                qualifies (length (chain bc)) c \<longrightarrow> length c \<le> length (chain bc')))
    \<and> ((\<forall>c\<in>set (reported get (neighbors bc)). length c \<le> length (chain bc)) \<longrightarrow> \<not> ok)"
proof -
  let ?R = "reported get (neighbors bc)"
  let ?l = "length (chain bc)"
  from ResolveConflicts_loop_spec [OF assms, of None ?l] obtain r where
    r: "ResolveConflicts_loop get (neighbors bc) None ?l = Inr r"
    and spec: "if \<exists>c\<in>set ?R. qualifies ?l c
       then \<exists>c. r = Some c \<and> c \<in> set ?R \<and> qualifies ?l c
              \<and> (\<forall>c'\<in>set ?R. qualifies ?l c' \<longrightarrow> length c' \<le> length c)
       else r = None"
    by blast
  have short: "\<not> (\<exists>c\<in>set ?R. qualifies ?l c)" if "\<forall>c\<in>set ?R. length c \<le> ?l"
    using that by (auto simp: qualifies_def)
  show ?thesis
  proof (cases "\<exists>c\<in>set ?R. qualifies ?l c")
    case True
    with spec obtain c where c: "r = Some c" "c \<in> set ?R" "qualifies ?l c"
      "\<forall>c'\<in>set ?R. qualifies ?l c' \<longrightarrow> length c' \<le> length c"
      by auto
    have "ResolveConflicts get bc = Inr (True, bc\<lparr>chain := c\<rparr>)"
      by (simp add: ResolveConflicts_def r c(1))
    then show ?thesis
      using True c short by (intro exI [of _ True] exI [of _ "bc\<lparr>chain := c\<rparr>"]) auto
  next
    case False
    with spec have "r = None"
      by simp
    then have "ResolveConflicts get bc = Inr (False, bc)"
      by (simp add: ResolveConflicts_def r)
    then show ?thesis
      using False by (intro exI [of _ False] exI [of _ bc]) simp
  qed
qed

theorem ResolveConflicts_longest_valid_witness:
  "list_all (answers neighbours_get) (neighbors node3)
   \<and> list_all (\<lambda>c. None \<notin> set (tl c)) (reported neighbours_get (neighbors node3))
   \<and> length (chain node3) = 3
   \<and> neighbours_get (chain_endpoint ''127.0.0.1:5001'') = Some \<lparr>StatusCode = 200, Body = Some body5\<rparr>
   \<and> neighbours_get (chain_endpoint ''127.0.0.1:5002'') = Some \<lparr>StatusCode = 200, Body = Some body4\<rparr>
   \<and> received \<lparr>StatusCode = 200, Body = Some body5\<rparr> = Inr chain5
   \<and> received \<lparr>StatusCode = 200, Body = Some body4\<rparr> = Inr chain4
   \<and> reported neighbours_get (neighbors node3) = [chain5, chain4]
   \<and> length chain5 = 5 \<and> ValidChain chain5 = Inr False
   \<and> length chain4 = 4 \<and> ValidChain chain4 = Inr True
   \<and> ResolveConflicts neighbours_get node3 = Inr (True, node3\<lparr>chain := chain4\<rparr>)"
proof -
  have g5: "neighbours_get (chain_endpoint ''127.0.0.1:5001'') = Some \<lparr>StatusCode = 200, Body = Some body5\<rparr>"
    and g4: "neighbours_get (chain_endpoint ''127.0.0.1:5002'') = Some \<lparr>StatusCode = 200, Body = Some body4\<rparr>"
    by (simp_all add: neighbours_get_def chain_endpoint_def)
  have h1: "\<forall>n\<in>set (neighbors node3). answers neighbours_get n"
    by (simp add: node3_def answers_def g5 g4 received_body4 received_body5)
  have h2: "\<forall>c\<in>set (reported neighbours_get (neighbors node3)). None \<notin> set (tl c)"
    by (simp add: reported_node3 chain4_def chain5_def)
  have l3: "length (chain node3) = 3"
    by (simp add: node3_def)
  have l5: "length chain5 = 5" and l4: "length chain4 = 4"
    by (simp_all add: chain5_def chain4_def)
  have q4: "qualifies (length (chain node3)) chain4"
    by (simp add: qualifies_def l3 l4 ValidChain_chain4)
  have q5: "\<not> qualifies (length (chain node3)) chain5"
    by (simp add: qualifies_def ValidChain_chain5)
  from ResolveConflicts_longest_valid [OF h1 h2] obtain ok bc' where
    res: "ResolveConflicts neighbours_get node3 = Inr (ok, bc')"
    and ok: "ok \<longleftrightarrow> (\<exists>c\<in>set (reported neighbours_get (neighbors node3)). qualifies (length (chain node3)) c)"
    and adopted: "ok \<longrightarrow> bc' = node3\<lparr>chain := chain bc'\<rparr>
          \<and> chain bc' \<in> set (reported neighbours_get (neighbors node3))
          \<and> qualifies (length (chain node3)) (chain bc')"
    by blast
  have "ok"
    using ok q4 by (simp add: reported_node3)
  moreover from this adopted have "chain bc' = chain4"
    using q5 by (auto simp: reported_node3)
  ultimately have "bc' = node3\<lparr>chain := chain4\<rparr>"
    using adopted by simp
  then show ?thesis
    using res \<open>ok\<close> h1 h2 l3 l4 l5 g5 g4 reported_node3 received_body4 received_body5
      ValidChain_chain4 ValidChain_chain5
    by (simp add: list_all_iff)
qed

text \<open>
  C6.  The claim is that a failed fetch is skipped.  In the code \<^verbatim>\<open>http.Get\<close> then returns a
  \<^verbatim>\<open>nil\<close> response, and reading its status code panics: as soon as one neighbour cannot be
  reached, the whole call of \<open>ResolveConflicts\<close> panics.
\<close>

theorem ResolveConflicts_failed_fetch_panics:
  "n \<in> set (neighbors bc) \<Longrightarrow> get (chain_endpoint n) = None \<Longrightarrow> \<exists>e. ResolveConflicts get bc = Inl e"
  using ResolveConflicts_loop_failed_fetch [of n "neighbors bc" get None "length (chain bc)"]
  by (auto simp: ResolveConflicts_def)

theorem ResolveConflicts_failed_fetch_panics_witness:
  "''127.0.0.1:5001'' \<in> set (neighbors (zero_Blockchain\<lparr>neighbors := [''127.0.0.1:5001'']\<rparr>))
   \<and> (\<lambda>url. None :: Response option) (chain_endpoint ''127.0.0.1:5001'') = None
   \<and> ResolveConflicts (\<lambda>url. None) (zero_Blockchain\<lparr>neighbors := [''127.0.0.1:5001'']\<rparr>)
        = Inl NilPointerDereference"
  using ResolveConflicts_failed_fetch_panics
    [of "''127.0.0.1:5001''" "zero_Blockchain\<lparr>neighbors := [''127.0.0.1:5001'']\<rparr>" "\<lambda>url. None"]
  by (simp add: ResolveConflicts_def ResolveConflicts_loop_Cons)

section \<open>Claims about proof of work\<close>

text \<open>
  C3.  \<open>ValidProof\<close> returns true exactly when the hexadecimal hash of the candidate block
  (timestamp 0, the nonce, the previous hash, the transactions) starts with \<open>D\<close> zeros; for
  a \<open>D\<close> that is negative or above 64 it panics, and no string of 64 characters starts
  with that many zeros.  \<open>ProofOfWork\<close> starts at 0 and counts up: whenever some
  non-negative nonce passes \<open>ValidProof\<close> for the copy of the pool and the hash of the last
  block, it returns, and what it returns is the smallest such nonce.
\<close>

theorem ValidProof_and_ProofOfWork:
  "(ValidProof n ph txs D = Inr True \<longleftrightarrow>
      starts_with_zeros D
        (hex (sha256 (Block_MarshalJSON
          \<lparr>timestamp = 0, nonce = n, previousHash = ph, transactions = txs\<rparr>))))
   \<and> (CopyTransactionPool bc = Inr pool \<longrightarrow> LastBlock bc = Inr lb \<longrightarrow> 0 \<le> sint k \<longrightarrow>
        ValidProof k (Hash lb) pool MiningDifficulty = Inr True \<longrightarrow>
        (\<exists>m. ProofOfWork bc = Some (Inr m) \<and> 0 \<le> sint m \<and> sint m \<le> sint k
           \<and> ValidProof m (Hash lb) pool MiningDifficulty = Inr True
           \<and> (\<forall>j. 0 \<le> sint j \<and> sint j < sint m \<longrightarrow>
                 ValidProof j (Hash lb) pool MiningDifficulty \<noteq> Inr True)))"
proof (intro conjI impI)
  show "ValidProof n ph txs D = Inr True \<longleftrightarrow>
      starts_with_zeros D
        (hex (sha256 (Block_MarshalJSON
          \<lparr>timestamp = 0, nonce = n, previousHash = ph, transactions = txs\<rparr>)))"
    by (rule ValidProof_True_iff)
next
  assume "CopyTransactionPool bc = Inr pool" "LastBlock bc = Inr lb"
    and "0 \<le> sint k" "ValidProof k (Hash lb) pool MiningDifficulty = Inr True"
  then show "\<exists>m. ProofOfWork bc = Some (Inr m) \<and> 0 \<le> sint m \<and> sint m \<le> sint k
           \<and> ValidProof m (Hash lb) pool MiningDifficulty = Inr True
           \<and> (\<forall>j. 0 \<le> sint j \<and> sint j < sint m \<longrightarrow>
                 ValidProof j (Hash lb) pool MiningDifficulty \<noteq> Inr True)"
    using ProofOfWork_loop_least [of k "Hash lb" pool] by (simp add: ProofOfWork_def)
qed

theorem ValidProof_and_ProofOfWork_witness:
  "CopyTransactionPool node1r = Inr (Some [Some tx1, Some reward])
   \<and> LastBlock node1r = Inr (Some genesis)
   \<and> 0 \<le> sint (0 :: 64 word)
   \<and> ValidProof 0 (Hash (Some genesis)) (Some [Some tx1, Some reward]) MiningDifficulty = Inr True
   \<and> ProofOfWork node1r = Some (Inr 0)"
proof -
  have z: "0 \<le> sint (0 :: 64 word)"
    by simp
  obtain m where m: "ProofOfWork node1r = Some (Inr m)" "0 \<le> sint m" "sint m \<le> sint (0 :: 64 word)"
    using ValidProof_and_ProofOfWork
      [of 0 "Hash (Some genesis)" "Some [Some tx1, Some reward]" MiningDifficulty node1r
          "Some [Some tx1, Some reward]" "Some genesis" 0]
      copy_node1r last_node1r valid_block1 z
    by blast
  then have "sint m = 0"
    by simp
  then have "m = 0"
    by (simp add: signed_eq_0_iff)
  then show ?thesis
    using m(1) copy_node1r last_node1r valid_block1 by simp
qed

section \<open>Claims about mining\<close>

text \<open>
  C8.  When the pool is empty, \<open>Mining\<close> returns false and the node is exactly as before.
\<close>

theorem Mining_empty_pool:
  "slice_len (transactionPool bc) = 0 \<Longrightarrow> Mining V bc now = Some (Inr (False, bc))"
  by (simp add: Mining_def)

theorem Mining_empty_pool_witness:
  "slice_len (transactionPool (NewBlockchain ''miner'' 5000 1700000000000004580)) = 0
    \<and> Mining (\<lambda>pk h r s. False) (NewBlockchain ''miner'' 5000 1700000000000004580) 1700000020000004580
        = Some (Inr (False, NewBlockchain ''miner'' 5000 1700000000000004580))"
proof -
  have e: "slice_len (transactionPool (NewBlockchain ''miner'' 5000 1700000000000004580)) = 0"
    by (simp add: NewBlockchain_def CreateBlock_def slice_len_def Let_def)
  show ?thesis
    using e Mining_empty_pool [OF e] by simp
qed

text \<open>
  C4.  When \<open>Mining\<close> returns true, the pool is empty afterwards, the chain is one block
  longer, and the transactions of the new last block are the transactions pooled before
  the call followed by one reward: from the mining sender, to the address of this node,
  of the mining reward.
\<close>

theorem Mining_success:
  assumes "Mining V bc now = Some (Inr (True, bc'))"
  shows "transactionPool bc' = Some []
    \<and> length (chain bc') = length (chain bc) + 1
    \<and> (\<exists>pool b. transactionPool bc = Some pool \<and> last (chain bc') = Some b
          \<and> transactions b =
              Some (pool @ [Some \<lparr>senderBlockchainAddress = MiningSender,
                                  recipientBlockchainAddress = blockchainAddress bc,
                                  amount = MiningReward\<rparr>]))"
proof -
  from assms obtain pool where pool: "transactionPool bc = Some pool"
    by (cases "transactionPool bc") (auto simp: Mining_def slice_len_def)
  define bc1 where
    "bc1 = bc\<lparr>transactionPool :=
              Some (pool @ [Some (NewTransaction MiningSender (blockchainAddress bc) MiningReward)])\<rparr>"
  have add: "AddTransaction V bc MiningSender (blockchainAddress bc) MiningReward None None = Inr (True, bc1)"
    by (simp add: AddTransaction_def bc1_def pool slice_append_def Let_def)
  from assms obtain n lb where "bc' = snd (CreateBlock bc1 now n (Hash lb))"
    by (auto simp: Mining_def add split: if_splits option.splits sum.splits)
  then show ?thesis
    by (simp add: CreateBlock_def NewBlock_def bc1_def pool NewTransaction_def Let_def)
qed

theorem Mining_success_witness:
  "Mining no_verifier node1 1700000020000004580 = Some (Inr (True, node2))
   \<and> transactionPool node2 = Some []
   \<and> length (chain node2) = length (chain node1) + 1
   \<and> transactionPool node1 = Some [Some tx1]
   \<and> last (chain node2) = Some block1
   \<and> transactions block1 = Some [Some tx1, Some reward]"
proof -
  have m: "Mining no_verifier node1 1700000020000004580 = Some (Inr (True, node2))"
    by (rule mining_node1)
  have a: "transactionPool node2 = Some [] \<and> length (chain node2) = length (chain node1) + 1"
    using Mining_success [OF m] by blast
  have b: "transactionPool node1 = Some [Some tx1]"
    by (simp add: node1_def)
  have c: "last (chain node2) = Some block1"
    by (simp add: node2_def)
  have d: "transactions block1 = Some [Some tx1, Some reward]"
    by (simp add: block1_def)
  show ?thesis
    using m a b c d by blast
qed

section \<open>Claims about the admission of transactions\<close>

text \<open>
  C7.  A transaction whose sender is the mining sender is appended to the pool, as the
  record of the sender, the recipient and the value that were submitted, and accepted
  whatever the key and the signature are, \<^verbatim>\<open>nil\<close> included, and the verifier is not asked.
  For every other sender, with a key and a signature, the transaction is appended and
  accepted exactly when the signature verifies; when it does not, the call returns false,
  does not panic, and the node is unchanged.
\<close>

theorem AddTransaction_admission:
  "AddTransaction V bc MiningSender recipient v pk s =
      Inr (True, bc\<lparr>transactionPool :=
         slice_append (transactionPool bc)
           (Some \<lparr>senderBlockchainAddress = MiningSender, recipientBlockchainAddress = recipient,
                  amount = v\<rparr>)\<rparr>)
   \<and> (sender \<noteq> MiningSender \<longrightarrow>
        AddTransaction V bc sender recipient v (Some key) (Some sg) =
          (if V key (verification_digest
                 \<lparr>senderBlockchainAddress = sender, recipientBlockchainAddress = recipient, amount = v\<rparr>)
               (R sg) (S sg)
           then Inr (True, bc\<lparr>transactionPool :=
                  slice_append (transactionPool bc)
                    (Some \<lparr>senderBlockchainAddress = sender, recipientBlockchainAddress = recipient,
                           amount = v\<rparr>)\<rparr>)
           else Inr (False, bc)))"
  by (simp add: AddTransaction_def VerityTransactionSignature_def NewTransaction_def Let_def)

theorem AddTransaction_admission_witness:
  "''alice'' \<noteq> MiningSender
   \<and> AddTransaction (\<lambda>k h r s. r = 7) zero_Blockchain ''alice'' ''bob'' MiningReward
        (Some \<lparr>X = 1, Y = 2\<rparr>) (Some \<lparr>R = 7, S = 9\<rparr>)
      = Inr (True, zero_Blockchain\<lparr>transactionPool :=
               Some [Some \<lparr>senderBlockchainAddress = ''alice'', recipientBlockchainAddress = ''bob'',
                            amount = MiningReward\<rparr>]\<rparr>)
   \<and> AddTransaction (\<lambda>k h r s. r = 7) zero_Blockchain ''alice'' ''bob'' MiningReward
        (Some \<lparr>X = 1, Y = 2\<rparr>) (Some \<lparr>R = 8, S = 9\<rparr>)
      = Inr (False, zero_Blockchain)"
proof -
  have ne: "''alice'' \<noteq> MiningSender"
    by (simp add: MiningSender_def)
  have pool: "slice_append (transactionPool zero_Blockchain) x = Some [x]" for x :: "Transaction option"
    by (simp add: slice_append_def zero_Blockchain_def)
  show ?thesis
    using ne
      AddTransaction_admission [of "\<lambda>k h r s. r = 7" zero_Blockchain "''bob''" MiningReward None None
        "''alice''" "\<lparr>X = 1, Y = 2\<rparr>" "\<lparr>R = 7, S = 9\<rparr>"]
      AddTransaction_admission [of "\<lambda>k h r s. r = 7" zero_Blockchain "''bob''" MiningReward None None
        "''alice''" "\<lparr>X = 1, Y = 2\<rparr>" "\<lparr>R = 8, S = 9\<rparr>"]
    by (simp add: pool)
qed

section \<open>Claims about the verification digest\<close>

text \<open>
  C1.  The claim is that the digest checked by \<open>VerityTransactionSignature\<close> is the hash of
  the encoding of the three fields of the transaction, so that transactions that differ
  have different digests.  In the code the digest of every transaction is the hash of the
  text \<^verbatim>\<open>{}\<close>: no field reaches the preimage, and any two transactions have the same digest.
\<close>

theorem verification_digest_ignores_fields:
  \<open>verification_digest t = sha256 ''{}'' \<and> verification_digest t = verification_digest t'\<close>
  by (simp add: verification_digest_def json_Marshal_Transaction_def json_of_Transaction_def)

section \<open>Claims about the JSON form of a block\<close>

text \<open>
  C10.  The claim is that \<open>Block.MarshalJSON\<close> and \<open>Block.UnmarshalJSON\<close> disagree on the key
  of the previous hash, and that \<open>Block.UnmarshalJSON\<close> panics on every input whose
  \<^verbatim>\<open>previous_hash\<close> is absent or decodes to fewer than 32 bytes.  The keys do disagree.  The
  panic is not on every such input.  An object without \<^verbatim>\<open>previous_hash\<close> whose \<^verbatim>\<open>timestamp\<close>
  is a string makes \<^verbatim>\<open>json.Unmarshal\<close> fail, and the error is returned before the slice is
  taken.  A \<^verbatim>\<open>previous_hash\<close> of 64 characters that are no hexadecimal digits decodes to no
  byte at all, but \<^verbatim>\<open>ph[:32]\<close> re-slices within the capacity of the buffer, 32 bytes: the
  call returns \<^verbatim>\<open>nil\<close> and the previous hash is 32 zero bytes.
\<close>

theorem Block_UnmarshalJSON_no_panic_counterexample:
  "member_values ''previous_hash'' [(''timestamp'', JString ''x'')] = []
   \<and> Block_UnmarshalJSON (\<lambda>v. None) zero_Block (JObject [(''timestamp'', JString ''x'')])
       = Inr (Inl JsonError)
   \<and> length (hex_pairs (replicate 64 CHR ''z'')) < 32
   \<and> Block_UnmarshalJSON (\<lambda>v. None) zero_Block
         (JObject [(''previous_hash'', JString (replicate 64 CHR ''z''))])
       = Inr (Inr (zero_Block\<lparr>previousHash := replicate 32 (CHR 0x00)\<rparr>))"
proof -
  have absent: "member_values ''previous_hash'' [(''timestamp'', JString ''x'')] = []"
    by (simp add: member_values_def key_matches_def ascii_lower_def)
  have err: "Block_UnmarshalJSON (\<lambda>v. None) zero_Block (JObject [(''timestamp'', JString ''x'')])
      = Inr (Inl JsonError)"
    by (simp add: Block_UnmarshalJSON_def decode_member_def key_matches_def ascii_lower_def)
  have "replicate 64 CHR ''z'' = CHR ''z'' # CHR ''z'' # replicate 62 CHR ''z''"
    by (simp add: numeral_eq_Suc)
  then have pairs: "hex_pairs (replicate 64 CHR ''z'') = []"
    by (simp add: hexval_def hextable_def)
  then have buffer: "hex_DecodeString_buffer (replicate 64 CHR ''z'') = replicate 32 (CHR 0x00)"
    by (simp add: hex_DecodeString_buffer_def)
  have "decode_members (\<lambda>v. None) [(''previous_hash'', JString (replicate 64 CHR ''z''))]
      (decoder_init zero_Block)
    = Some ((decoder_init zero_Block)\<lparr>d_previousHash := Some (replicate 64 CHR ''z'')\<rparr>)"
    by (simp add: decode_member_def key_matches_def ascii_lower_def)
  then have ok: "Block_UnmarshalJSON (\<lambda>v. None) zero_Block
         (JObject [(''previous_hash'', JString (replicate 64 CHR ''z''))])
       = Inr (Inr (zero_Block\<lparr>previousHash := replicate 32 (CHR 0x00)\<rparr>))"
    by (simp add: Block_UnmarshalJSON_def buffer decoder_init_def zero_Block_def)
  show ?thesis
    using absent err pairs ok by simp
qed

text \<open>
  C10, amended.  \<open>Block.MarshalJSON\<close> writes the keys \<^verbatim>\<open>timestamp\<close>, \<^verbatim>\<open>nonce\<close>,
  \<^verbatim>\<open>previous-hash\<close> and \<^verbatim>\<open>transactions\<close>, none of which \<open>Block.UnmarshalJSON\<close> reads the
  previous hash from.  On an object that \<^verbatim>\<open>json.Unmarshal\<close> rejects, \<open>Block.UnmarshalJSON\<close>
  returns the error.  On an object that it accepts and in which \<^verbatim>\<open>previous_hash\<close> is absent,
  or has as its last value a string of fewer than 64 characters, \<open>Block.UnmarshalJSON\<close>
  panics with a slice bound out of range.  So decoding what \<open>Block.MarshalJSON\<close> produced
  never returns a block, whatever the decoding of the transactions does.
\<close>

theorem Block_JSON_no_round_trip:
  "map fst (Block_fields b) = [''timestamp'', ''nonce'', ''previous-hash'', ''transactions'']
   \<and> member_values ''previous_hash'' (Block_fields b) = []
   \<and> (decode_members dec_txs kvs (decoder_init b0) = None
        \<longrightarrow> Block_UnmarshalJSON dec_txs b0 (JObject kvs) = Inr (Inl JsonError))
   \<and> (decode_members dec_txs kvs (decoder_init b0) \<noteq> None
        \<and> (member_values ''previous_hash'' kvs = []
           \<or> (\<exists>s. last (member_values ''previous_hash'' kvs) = JString s \<and> length s < 64))
        \<longrightarrow> Block_UnmarshalJSON dec_txs b0 (JObject kvs) = Inl SliceBoundsOutOfRange)
   \<and> (\<forall>b'. Block_UnmarshalJSON dec_txs b0 (JObject (Block_fields b)) \<noteq> Inr (Inr b'))"
proof -
  have keys: "map fst (Block_fields b) = [''timestamp'', ''nonce'', ''previous-hash'', ''transactions'']"
    by (simp add: Block_fields_def)
  have err: "Block_UnmarshalJSON dec_txs b0 (JObject kvs) = Inr (Inl JsonError)"
    if "decode_members dec_txs kvs (decoder_init b0) = None"
    using that by (simp add: Block_UnmarshalJSON_def)
  have never: "Block_UnmarshalJSON dec_txs b0 (JObject (Block_fields b)) \<noteq> Inr (Inr b')" for b'
    using Block_UnmarshalJSON_Block_fields [of dec_txs b0 b] by auto
  show ?thesis
    using keys Block_fields_no_previous_hash err Block_UnmarshalJSON_short never by blast
qed

theorem Block_JSON_no_round_trip_witness:
  "decode_members (\<lambda>v. None) [(''nonce'', JString ''x'')] (decoder_init zero_Block) = None
   \<and> Block_UnmarshalJSON (\<lambda>v. None) zero_Block (JObject [(''nonce'', JString ''x'')]) = Inr (Inl JsonError)
   \<and> decode_members (\<lambda>v. None) (Block_fields genesis) (decoder_init zero_Block) \<noteq> None
   \<and> member_values ''previous_hash'' (Block_fields genesis) = []
   \<and> Block_UnmarshalJSON (\<lambda>v. None) zero_Block (JObject (Block_fields genesis)) = Inl SliceBoundsOutOfRange
   \<and> decode_members (\<lambda>v. None) [(''previous_hash'', JString ''00ab'')] (decoder_init zero_Block) \<noteq> None
   \<and> last (member_values ''previous_hash'' [(''previous_hash'', JString ''00ab'')]) = JString ''00ab''
   \<and> Block_UnmarshalJSON (\<lambda>v. None) zero_Block (JObject [(''previous_hash'', JString ''00ab'')])
       = Inl SliceBoundsOutOfRange"
proof -
  have e: "decode_members (\<lambda>v. None) [(''nonce'', JString ''x'')] (decoder_init zero_Block) = None"
    by (simp add: decode_member_def key_matches_def ascii_lower_def)
  have a: "decode_members (\<lambda>v. None) (Block_fields genesis) (decoder_init zero_Block) \<noteq> None"
    by (simp add: Block_fields_def genesis_def decode_member_def key_matches_def ascii_lower_def
        in_int64_def json_of_transactions_def)
  have s: "decode_members (\<lambda>v. None) [(''previous_hash'', JString ''00ab'')] (decoder_init zero_Block) \<noteq> None"
    by (simp add: decode_member_def key_matches_def ascii_lower_def)
  have l: "last (member_values ''previous_hash'' [(''previous_hash'', JString ''00ab'')]) = JString ''00ab''"
    by (simp add: member_values_def key_matches_def ascii_lower_def)
  note t = Block_JSON_no_round_trip
  show ?thesis
    using e a s l
      t [of genesis "\<lambda>v. None" "[(''nonce'', JString ''x'')]" zero_Block]
      t [of genesis "\<lambda>v. None" "Block_fields genesis" zero_Block]
      t [of genesis "\<lambda>v. None" "[(''previous_hash'', JString ''00ab'')]" zero_Block]
    by simp
qed


end
